theory Spec2Isabelle
  imports Main
begin

section \<open>Common types\<close>

text \<open>
  The Python exceptions the two programs can raise: an out-of-range list index,
  subscripting \<open>None\<close>, and a zero step given to \<open>range\<close>.
\<close>

datatype error = IndexError | TypeError | ValueError

type_synonym pos = "int \<times> int"
type_synonym clause = "int list"
type_synonym cnf = "int list list"

text \<open>
  The SAT solver is an external collaborator. It is a parameter of the solve functions:
  \<open>None\<close> stands for \<open>solver.solve()\<close> returning false, \<open>Some model\<close> for the list
  of signed variable ids given by \<open>solver.get_model()\<close>.
\<close>

type_synonym sat_oracle = "cnf \<Rightarrow> int list option"

text \<open>A literal holds in a model list when it occurs there (\<open>l in model\<close>).\<close>

definition consistent :: "int list \<Rightarrow> bool" where
  "consistent model \<longleftrightarrow> (\<forall>l\<in>set model. - l \<notin> set model)"

definition satisfies :: "int list \<Rightarrow> cnf \<Rightarrow> bool" where
  "satisfies model f \<longleftrightarrow> (\<forall>c\<in>set f. \<exists>l\<in>set c. l \<in> set model)"

text \<open>
  The model list a solver hands back for variables \<open>1..nv\<close>: every variable occurs once,
  positively when it is true and negatively otherwise.
\<close>

definition full_model :: "int list \<Rightarrow> int \<Rightarrow> int list" where
  "full_model trues nv = map (\<lambda>v. if v \<in> set trues then v else - v) [1..nv]"

text \<open>
  Whether a literal occurs in \<open>full_model trues nv\<close>, and whether that model satisfies a
  formula, decided from \<open>trues\<close> without building the list.
\<close>

definition lit_true :: "int list \<Rightarrow> int \<Rightarrow> int \<Rightarrow> bool" where
  "lit_true trues nv l \<longleftrightarrow>
     (if 0 < l then l \<le> nv \<and> l \<in> set trues else l < 0 \<and> - nv \<le> l \<and> - l \<notin> set trues)"

definition full_model_satisfies :: "int list \<Rightarrow> int \<Rightarrow> cnf \<Rightarrow> bool" where
  "full_model_satisfies trues nv f \<longleftrightarrow> list_all (list_ex (lit_true trues nv)) f"

section \<open>Sokoban: \<open>q2.py\<close>\<close>

subsection \<open>The encoder object and its parser\<close>

text \<open>
  The fields of \<open>SokobanEncoder\<close>. The fields \<open>T\<close>, \<open>N\<close> and \<open>M\<close> carry the prefix
  \<open>enc_\<close>; the clause accumulator \<open>cnf\<close> is the value \<open>encode\<close> returns.
\<close>

record encoder =
  grid :: "string list list"
  enc_T :: int
  enc_N :: int
  enc_M :: int
  goals :: "pos list"
  boxes :: "pos list"
  walls :: "pos list"
  player_start :: "pos option"
  num_boxes :: int

definition cell_positions :: "int \<Rightarrow> int \<Rightarrow> pos list" where
  "cell_positions n m = [(i, j). i \<leftarrow> [0..n - 1], j \<leftarrow> [0..m - 1]]"

definition classify :: "string \<Rightarrow> pos \<Rightarrow> encoder \<Rightarrow> encoder" where
  "classify c p e =
     (if c = ''G'' then e\<lparr>goals := goals e @ [p]\<rparr>
      else if c = ''B'' then e\<lparr>boxes := boxes e @ [p]\<rparr>
      else if c = ''P'' then e\<lparr>player_start := Some p\<rparr>
      else if c = ''#'' then e\<lparr>walls := walls e @ [p]\<rparr>
      else e)"

text \<open>
  The double loop of \<open>_parse_grid\<close>, over the cells in row-major order. Reading
  \<open>grid[i][j]\<close> in a row shorter than \<open>M\<close> raises IndexError.
\<close>

fun parse_cells :: "pos list \<Rightarrow> encoder \<Rightarrow> error + encoder" where
  "parse_cells [] e = Inr e"
| "parse_cells ((i, j) # ps) e =
     (if nat i < length (grid e) \<and> nat j < length (grid e ! nat i)
      then parse_cells ps (classify (grid e ! nat i ! nat j) (i, j) e)
      else Inl IndexError)"

definition parse_grid :: "encoder \<Rightarrow> error + encoder" where
  "parse_grid e = parse_cells (cell_positions (enc_N e) (enc_M e)) e"

text \<open>\<open>SokobanEncoder.__init__\<close>: \<open>len(grid[0])\<close> raises IndexError on an empty grid.\<close>

definition new_encoder :: "string list list \<Rightarrow> int \<Rightarrow> error + encoder" where
  "new_encoder g t =
     (case g of
        [] \<Rightarrow> Inl IndexError
      | r0 # _ \<Rightarrow>
          (case parse_grid \<lparr>grid = g, enc_T = t, enc_N = int (length g),
                            enc_M = int (length r0), goals = [], boxes = [], walls = [],
                            player_start = None, num_boxes = 0\<rparr> of
             Inl err \<Rightarrow> Inl err
           | Inr e \<Rightarrow> Inr (e\<lparr>num_boxes := int (length (boxes e))\<rparr>)))"

subsection \<open>Variable encoding\<close>

definition var_player :: "int \<Rightarrow> int \<Rightarrow> int \<Rightarrow> int" where
  "var_player x y t = 1 + 1000 * x + 100 * y + t"

definition var_box :: "int \<Rightarrow> int \<Rightarrow> int \<Rightarrow> int \<Rightarrow> int" where
  "var_box b x y t = 10000 * (b + 1) + 1000 * x + 100 * y + t"

subsection \<open>Clause families of \<open>encode\<close>\<close>

definition DIRS :: "(string \<times> pos) list" where
  "DIRS = [(''U'', (- 1, 0)), (''D'', (1, 0)), (''L'', (0, - 1)), (''R'', (0, 1))]"

definition DIRS_values :: "pos list" where
  "DIRS_values = map snd DIRS"

definition valid_positions :: "encoder \<Rightarrow> pos list" where
  "valid_positions e =
     [(i, j). i \<leftarrow> [0..enc_N e - 1], j \<leftarrow> [0..enc_M e - 1], (i, j) \<notin> set (walls e)]"

text \<open>The index pairs \<open>i < j\<close> of the two nested loops over \<open>valid_positions\<close>.\<close>

definition position_pairs :: "pos list \<Rightarrow> (pos \<times> pos) list" where
  "position_pairs vp = [(vp ! i, vp ! j). i \<leftarrow> [0..<length vp], j \<leftarrow> [i + 1..<length vp]]"

definition init_boxes :: "encoder \<Rightarrow> cnf" where
  "init_boxes e =
     [[var_box b (fst (boxes e ! nat b)) (snd (boxes e ! nat b)) 0]. b \<leftarrow> [0..num_boxes e - 1]]"

definition player_somewhere :: "encoder \<Rightarrow> cnf" where
  "player_somewhere e =
     [[var_player x y t. (x, y) \<leftarrow> valid_positions e]. t \<leftarrow> [0..enc_T e]]"

definition player_at_most_one :: "encoder \<Rightarrow> cnf" where
  "player_at_most_one e =
     [[- var_player (fst p1) (snd p1) t, - var_player (fst p2) (snd p2) t].
        t \<leftarrow> [0..enc_T e], (p1, p2) \<leftarrow> position_pairs (valid_positions e)]"

definition box_somewhere :: "encoder \<Rightarrow> cnf" where
  "box_somewhere e =
     [[var_box b x y t. (x, y) \<leftarrow> valid_positions e].
        t \<leftarrow> [0..enc_T e], b \<leftarrow> [0..num_boxes e - 1]]"

definition box_at_most_one :: "encoder \<Rightarrow> cnf" where
  "box_at_most_one e =
     [[- var_box b (fst p1) (snd p1) t, - var_box b (fst p2) (snd p2) t].
        t \<leftarrow> [0..enc_T e], b \<leftarrow> [0..num_boxes e - 1],
        (p1, p2) \<leftarrow> position_pairs (valid_positions e)]"

definition player_box_overlap :: "encoder \<Rightarrow> cnf" where
  "player_box_overlap e =
     [[- var_player x y t, - var_box b x y t].
        t \<leftarrow> [0..enc_T e], (x, y) \<leftarrow> valid_positions e, b \<leftarrow> [0..num_boxes e - 1]]"

definition box_box_overlap :: "encoder \<Rightarrow> cnf" where
  "box_box_overlap e =
     [[- var_box b1 x y t, - var_box b2 x y t].
        t \<leftarrow> [0..enc_T e], (x, y) \<leftarrow> valid_positions e,
        b1 \<leftarrow> [0..num_boxes e - 2], b2 \<leftarrow> [b1 + 1..num_boxes e - 1]]"

definition player_move :: "encoder \<Rightarrow> cnf" where
  "player_move e =
     [[- var_player x y t, var_player x y (t + 1)] @
      [var_player (x + dx) (y + dy) (t + 1).
         (dx, dy) \<leftarrow> DIRS_values, (x + dx, y + dy) \<in> set (valid_positions e)].
        t \<leftarrow> [0..enc_T e - 1], (x, y) \<leftarrow> valid_positions e]"

definition push_clauses :: "encoder \<Rightarrow> int \<Rightarrow> int \<Rightarrow> pos \<Rightarrow> pos \<Rightarrow> cnf" where
  "push_clauses e t b p d =
     (let x = fst p; y = snd p; dx = fst d; dy = snd d;
          bx = x + dx; by = y + dy; bx2 = x + 2 * dx; by2 = y + 2 * dy
      in if (bx, by) \<in> set (valid_positions e) \<and> (bx2, by2) \<in> set (valid_positions e)
         then (let precond = [- var_player x y t, - var_box b bx by t];
                   clause1 = [var_box b bx by (t + 1), var_player bx by (t + 1)];
                   clause2 = [var_box b bx by (t + 1), var_box b bx2 by2 (t + 1)]
               in [precond @ clause1, precond @ clause2])
         else [])"

definition push :: "encoder \<Rightarrow> cnf" where
  "push e =
     concat [push_clauses e t b p d.
        t \<leftarrow> [0..enc_T e - 1], b \<leftarrow> [0..num_boxes e - 1],
        p \<leftarrow> valid_positions e, d \<leftarrow> DIRS_values]"

definition stay :: "encoder \<Rightarrow> cnf" where
  "stay e =
     [[- var_box b x y t, var_box b x y (t + 1)] @
      [var_player (x - dx) (y - dy) t.
         (dx, dy) \<leftarrow> DIRS_values,
         (x - dx, y - dy) \<in> set (valid_positions e) \<and> (x + dx, y + dy) \<in> set (valid_positions e)].
        t \<leftarrow> [0..enc_T e - 1], b \<leftarrow> [0..num_boxes e - 1], (x, y) \<leftarrow> valid_positions e]"

definition goal :: "encoder \<Rightarrow> cnf" where
  "goal e = [[var_box b gx gy (enc_T e). (gx, gy) \<leftarrow> goals e]. b \<leftarrow> [0..num_boxes e - 1]]"

text \<open>
  \<open>encode\<close>: the first clause reads \<open>self.player_start[0]\<close>, which raises TypeError when
  no player cell was found; nothing has been appended to the formula at that point.
\<close>

definition encode :: "encoder \<Rightarrow> error + cnf" where
  "encode e =
     (case player_start e of
        None \<Rightarrow> Inl TypeError
      | Some ps \<Rightarrow>
          Inr ([[var_player (fst ps) (snd ps) 0]] @ init_boxes e @
               player_somewhere e @ player_at_most_one e @
               box_somewhere e @ box_at_most_one e @
               player_box_overlap e @ box_box_overlap e @
               player_move e @ push e @ stay e @ goal e))"

subsection \<open>\<open>decode\<close> and \<open>solve_sokoban\<close>\<close>

text \<open>
  The scan of \<open>decode\<close> for one timestep: the first cell of the whole grid, in row-major
  order, whose player variable occurs in the model; the two \<open>break\<close>s leave the scan
  there.
\<close>

definition find_player :: "int list \<Rightarrow> encoder \<Rightarrow> int \<Rightarrow> pos option" where
  "find_player model e t =
     List.find (\<lambda>p. var_player (fst p) (snd p) t \<in> set model)
       (cell_positions (enc_N e) (enc_M e))"

definition positions :: "int list \<Rightarrow> encoder \<Rightarrow> pos list" where
  "positions model e =
     concat [case find_player model e t of None \<Rightarrow> [] | Some p \<Rightarrow> [p]. t \<leftarrow> [0..enc_T e]]"

text \<open>
  One round of the second loop: \<open>positions[t]\<close> and \<open>positions[t+1]\<close> raise IndexError
  out of range; a delta that passes none of the four tests appends nothing.
\<close>

definition move_at :: "pos list \<Rightarrow> int \<Rightarrow> error + string list" where
  "move_at ps t =
     (if nat t < length ps \<and> nat (t + 1) < length ps
      then (let x = fst (ps ! nat t); y = snd (ps ! nat t);
                nx = fst (ps ! nat (t + 1)); ny = snd (ps ! nat (t + 1))
            in Inr (if nx = x - 1 then [''U'']
                    else if nx = x + 1 then [''D'']
                    else if ny = y - 1 then [''L'']
                    else if ny = y + 1 then [''R'']
                    else []))
      else Inl IndexError)"

fun moves_from :: "pos list \<Rightarrow> int list \<Rightarrow> error + string list" where
  "moves_from ps [] = Inr []"
| "moves_from ps (t # ts) =
     (case move_at ps t of
        Inl err \<Rightarrow> Inl err
      | Inr m \<Rightarrow> (case moves_from ps ts of Inl err \<Rightarrow> Inl err | Inr ms \<Rightarrow> Inr (m @ ms)))"

definition decode :: "int list \<Rightarrow> encoder \<Rightarrow> error + string list" where
  "decode model e = moves_from (positions model e) [0..enc_T e - 1]"

text \<open>What \<open>solve_sokoban\<close> returns: the integer \<open>-1\<close> or a list of moves.\<close>

datatype outcome = Sentinel int | Moves "string list"

definition solve_sokoban :: "sat_oracle \<Rightarrow> string list list \<Rightarrow> int \<Rightarrow> error + outcome" where
  "solve_sokoban solver g t =
     (case new_encoder g t of
        Inl err \<Rightarrow> Inl err
      | Inr e \<Rightarrow>
          (case encode e of
             Inl err \<Rightarrow> Inl err
           | Inr f \<Rightarrow>
               (case solver f of
                  None \<Rightarrow> Inr (Sentinel (- 1))
                | Some model \<Rightarrow>
                    if model = [] then Inr (Sentinel (- 1))
                    else (case decode model e of
                            Inl err \<Rightarrow> Inl err
                          | Inr ms \<Rightarrow> Inr (Moves ms)))))"

text \<open>The clause set \<open>solve_sokoban\<close> hands to the solver.\<close>

definition sokoban_cnf :: "string list list \<Rightarrow> int \<Rightarrow> error + cnf" where
  "sokoban_cnf g t = (case new_encoder g t of Inl err \<Rightarrow> Inl err | Inr e \<Rightarrow> encode e)"

subsection \<open>The contract of the solver\<close>

text \<open>
  A sound solver only returns models of the formula it was given; a formula is
  unsatisfiable when no consistent model list satisfies it.
\<close>

definition oracle_sound :: "sat_oracle \<Rightarrow> cnf \<Rightarrow> bool" where
  "oracle_sound solver f \<longleftrightarrow> (\<forall>m. solver f = Some m \<longrightarrow> consistent m \<and> satisfies m f)"

definition unsatisfiable :: "cnf \<Rightarrow> bool" where
  "unsatisfiable f \<longleftrightarrow> \<not> (\<exists>m. consistent m \<and> satisfies m f)"

definition oracle_complete :: "sat_oracle \<Rightarrow> cnf \<Rightarrow> bool" where
  "oracle_complete solver f \<longleftrightarrow> (solver f = None \<longrightarrow> unsatisfiable f)"

subsection \<open>Concrete layouts and models\<close>

definition pbg_grid :: "string list list" where
  "pbg_grid = [[''P'', ''B'', ''G'']]"

definition pbg_model :: "int list" where
  "pbg_model = full_model [1, 102, 10100, 10201] 10201"

definition pbg_oracle :: sat_oracle where
  "pbg_oracle = (\<lambda>f. Some pbg_model)"

text \<open>The encoder object and the clause set of \<open>pbg_grid\<close> with horizon 1.\<close>

definition pbg_encoder :: encoder where
  "pbg_encoder =
     \<lparr>grid = [[''P'', ''B'', ''G'']], enc_T = 1, enc_N = 1, enc_M = 3, goals = [(0, 2)],
      boxes = [(0, 1)], walls = [], player_start = Some (0, 0), num_boxes = 1\<rparr>"

definition pbg_cnf :: cnf where
  "pbg_cnf =
     [[1], [10100], [1, 101, 201], [2, 102, 202], [- 1, - 101], [- 1, - 201],
      [- 101, - 201], [- 2, - 102], [- 2, - 202], [- 102, - 202],
      [10000, 10100, 10200], [10001, 10101, 10201], [- 10000, - 10100],
      [- 10000, - 10200], [- 10100, - 10200], [- 10001, - 10101], [- 10001, - 10201],
      [- 10101, - 10201], [- 1, - 10000], [- 101, - 10100], [- 201, - 10200],
      [- 2, - 10001], [- 102, - 10101], [- 202, - 10201], [- 1, 2, 102],
      [- 101, 102, 2, 202], [- 201, 202, 102], [- 1, - 10100, 10101, 102],
      [- 1, - 10100, 10101, 10201], [- 201, - 10100, 10101, 102],
      [- 201, - 10100, 10101, 10001], [- 10000, 10001], [- 10100, 10101, 201, 1],
      [- 10200, 10201], [10201]]"

definition wall_grid :: "string list list" where
  "wall_grid = [[''#'', ''P'', ''B'', ''G'']]"

text \<open>
  A model of the clause set of \<open>wall_grid\<close> with horizon 1: the player walks from
  \<open>(0,1)\<close> to \<open>(0,2)\<close> and the box from \<open>(0,2)\<close> to \<open>(0,3)\<close>. Variable 1, the
  player on the wall cell \<open>(0,0)\<close> at time 0, occurs in no clause; here it is true.
\<close>

definition wall_model :: "int list" where
  "wall_model = full_model [1, 101, 202, 10200, 10301] 10301"

definition wall_cnf :: cnf where
  "wall_cnf =
     [[101], [10200], [101, 201, 301], [102, 202, 302], [- 101, - 201], [- 101, - 301],
      [- 201, - 301], [- 102, - 202], [- 102, - 302], [- 202, - 302],
      [10100, 10200, 10300], [10101, 10201, 10301], [- 10100, - 10200],
      [- 10100, - 10300], [- 10200, - 10300], [- 10101, - 10201], [- 10101, - 10301],
      [- 10201, - 10301], [- 101, - 10100], [- 201, - 10200], [- 301, - 10300],
      [- 102, - 10101], [- 202, - 10201], [- 302, - 10301], [- 101, 102, 202],
      [- 201, 202, 102, 302], [- 301, 302, 202], [- 101, - 10200, 10201, 202],
      [- 101, - 10200, 10201, 10301], [- 301, - 10200, 10201, 202],
      [- 301, - 10200, 10201, 10101], [- 10100, 10101], [- 10200, 10201, 301, 101],
      [- 10300, 10301], [10301]]"

definition wall_oracle :: sat_oracle where
  "wall_oracle = (\<lambda>f. Some wall_model)"

definition wall_encoder :: encoder where
  "wall_encoder =
     \<lparr>grid = [[''#'', ''P'', ''B'', ''G'']], enc_T = 1, enc_N = 1, enc_M = 4,
      goals = [(0, 3)], boxes = [(0, 2)], walls = [(0, 0)], player_start = Some (0, 1),
      num_boxes = 1\<rparr>"

text \<open>
  Two boxes, horizon 3: the player pushes the left box onto the left goal, walks back
  and pushes the right box onto the right goal.
\<close>

definition two_box_grid :: "string list list" where
  "two_box_grid = [[''G'', ''B'', ''P'', ''B'', ''G'']]"

definition two_box_encoder :: encoder where
  "two_box_encoder =
     \<lparr>grid = [[''G'', ''B'', ''P'', ''B'', ''G'']], enc_T = 3, enc_N = 1, enc_M = 5,
      goals = [(0, 0), (0, 4)], boxes = [(0, 1), (0, 3)], walls = [],
      player_start = Some (0, 2), num_boxes = 2\<rparr>"

definition two_box_cnf :: cnf where
  "two_box_cnf = (case encode two_box_encoder of Inl err \<Rightarrow> [] | Inr f \<Rightarrow> f)"

definition two_box_model :: "int list" where
  "two_box_model =
     full_model [201, 102, 203, 304, 10100, 10001, 10002, 10003,
                 20300, 20301, 20302, 20403] 20403"

definition no_goal_grid :: "string list list" where
  "no_goal_grid = [[''P'', ''B'']]"

definition no_player_grid :: "string list list" where
  "no_player_grid = [[''.'', ''B'', ''G'']]"

definition unsat_oracle :: sat_oracle where
  "unsat_oracle = (\<lambda>f. None)"

section \<open>Sudoku: \<open>q1.py\<close>\<close>

text \<open>
  \<open>int(math.sqrt(n))\<close> for a list length \<open>n\<close>: the number of \<open>k\<close> in \<open>1..n\<close> with
  \<open>k * k \<le> n\<close>, the integer square root.
\<close>

definition int_sqrt :: "int \<Rightarrow> int" where
  "int_sqrt n = int (length (filter (\<lambda>k. k * k \<le> n) [1..n]))"

text \<open>\<open>range(a, b, s)\<close>; a zero step raises ValueError.\<close>

definition range_step :: "int \<Rightarrow> int \<Rightarrow> int \<Rightarrow> error + int list" where
  "range_step a b s =
     (if s = 0 then Inl ValueError
      else if 0 < s then Inr (map (\<lambda>k. a + k * s) [0..(b - a - 1) div s])
      else Inr (map (\<lambda>k. a + k * s) [0..(a - b - 1) div (- s)]))"

text \<open>The variable of "cell \<open>(row, column)\<close> holds \<open>num\<close>", written inline in the source.\<close>

definition sudoku_var :: "int \<Rightarrow> int \<Rightarrow> int \<Rightarrow> int" where
  "sudoku_var row column num = 100 * row + 10 * column + num"

definition row_clauses :: "int \<Rightarrow> cnf" where
  "row_clauses n =
     [[sudoku_var row column num. column \<leftarrow> [1..n]]. row \<leftarrow> [1..n], num \<leftarrow> [1..n]]"

definition column_clauses :: "int \<Rightarrow> cnf" where
  "column_clauses n =
     [[sudoku_var row column num. row \<leftarrow> [1..n]]. column \<leftarrow> [1..n], num \<leftarrow> [1..n]]"

definition block_clauses :: "int \<Rightarrow> int \<Rightarrow> int list \<Rightarrow> cnf" where
  "block_clauses n sqrt_n starts =
     [[sudoku_var (rownums + dr) (colnums + dc) num.
         dr \<leftarrow> [0..sqrt_n - 1], dc \<leftarrow> [0..sqrt_n - 1]].
        rownums \<leftarrow> starts, colnums \<leftarrow> starts, num \<leftarrow> [1..n]]"

definition cell_clauses :: "int \<Rightarrow> cnf" where
  "cell_clauses n =
     [[- sudoku_var row column num1, - sudoku_var row column num2].
        row \<leftarrow> [1..n], column \<leftarrow> [1..n], num1 \<leftarrow> [1..n], num2 \<leftarrow> [num1 + 1..n]]"

text \<open>
  The loop over the given cells; \<open>grid[row][column]\<close> raises IndexError in a row
  shorter than \<open>n\<close>.
\<close>

fun initial_clauses :: "int list list \<Rightarrow> pos list \<Rightarrow> error + cnf" where
  "initial_clauses g [] = Inr []"
| "initial_clauses g ((row, column) # ps) =
     (if nat row < length g \<and> nat column < length (g ! nat row)
      then (case initial_clauses g ps of
              Inl err \<Rightarrow> Inl err
            | Inr cs \<Rightarrow>
                Inr ((if g ! nat row ! nat column \<noteq> 0
                      then [[sudoku_var (row + 1) (column + 1) (g ! nat row ! nat column)]]
                      else []) @ cs))
      else Inl IndexError)"

definition sudoku_cnf :: "int list list \<Rightarrow> error + cnf" where
  "sudoku_cnf g =
     (let n = int (length g); sqrt_n = int_sqrt n
      in case range_step 1 (n + 1) sqrt_n of
           Inl err \<Rightarrow> Inl err
         | Inr starts \<Rightarrow>
             (case initial_clauses g (cell_positions n n) of
                Inl err \<Rightarrow> Inl err
              | Inr given \<Rightarrow>
                  Inr (row_clauses n @ column_clauses n @ block_clauses n sqrt_n starts @
                       cell_clauses n @ given)))"

text \<open>One round of the loop over the model: a positive literal is unpacked digit by digit.\<close>

definition write_value :: "int \<Rightarrow> int \<Rightarrow> int list list \<Rightarrow> int list list" where
  "write_value n v ans =
     (if 0 < v
      then (let num = v mod 10; column = (v div 10) mod 10; row = v div 100
            in if 1 \<le> row \<and> row \<le> n \<and> 1 \<le> column \<and> column \<le> n \<and> 1 \<le> num \<and> num \<le> n
               then ans[nat (row - 1) := (ans ! nat (row - 1))[nat (column - 1) := num]]
               else ans)
      else ans)"

definition decode_model :: "int \<Rightarrow> int list \<Rightarrow> int list list" where
  "decode_model n model = fold (write_value n) model (replicate (nat n) (replicate (nat n) 0))"

definition solve_sudoku :: "sat_oracle \<Rightarrow> int list list \<Rightarrow> error + int list list" where
  "solve_sudoku solver g =
     (case sudoku_cnf g of
        Inl err \<Rightarrow> Inl err
      | Inr f \<Rightarrow>
          (case solver f of
             Some model \<Rightarrow> Inr (decode_model (int (length g)) model)
           | None \<Rightarrow> Inr g))"

definition blank16 :: "int list list" where
  "blank16 = replicate 16 (replicate 16 0)"

definition blank2 :: "int list list" where
  "blank2 = [[0, 0], [0, 0]]"

subsection \<open>\<open>solve_sudoku\<close> over an explicit store\<close>

text \<open>
  Python lists are objects reached through references. The store is the list of all
  objects, an address is an index into it; a grid is a list of references to its rows.
  \<open>solve_sudoku_store\<close> is \<open>solve_sudoku\<close> with the argument passed by reference and
  every allocation and assignment of the source written out.
\<close>

datatype obj = IntRow "int list" | RefList "nat list"

type_synonym store = "obj list"

definition load_row :: "store \<Rightarrow> nat \<Rightarrow> int list option" where
  "load_row h a =
     (if a < length h then (case h ! a of IntRow xs \<Rightarrow> Some xs | RefList rs \<Rightarrow> None) else None)"

fun load_rows :: "store \<Rightarrow> nat list \<Rightarrow> int list list option" where
  "load_rows h [] = Some []"
| "load_rows h (a # as) =
     (case load_row h a of
        None \<Rightarrow> None
      | Some xs \<Rightarrow> (case load_rows h as of None \<Rightarrow> None | Some xss \<Rightarrow> Some (xs # xss)))"

definition load_grid :: "store \<Rightarrow> nat \<Rightarrow> int list list option" where
  "load_grid h g =
     (if g < length h then (case h ! g of RefList rs \<Rightarrow> load_rows h rs | IntRow xs \<Rightarrow> None)
      else None)"

text \<open>\<open>[[0 for i in range(n)] for j in range(n)]\<close>: \<open>n\<close> new rows, then the new outer list.\<close>

definition new_rows :: "store \<Rightarrow> nat \<Rightarrow> store \<times> nat list" where
  "new_rows h n = (h @ replicate n (IntRow (replicate n 0)), [length h..<length h + n])"

definition new_list :: "store \<Rightarrow> nat list \<Rightarrow> store \<times> nat" where
  "new_list h rs = (h @ [RefList rs], length h)"

text \<open>\<open>ans[row-1][column-1] = num\<close>: an assignment into the row object.\<close>

definition store_value :: "int \<Rightarrow> nat \<Rightarrow> int \<Rightarrow> store \<Rightarrow> store" where
  "store_value n ans v h =
     (if 0 < v
      then (let num = v mod 10; column = (v div 10) mod 10; row = v div 100
            in if 1 \<le> row \<and> row \<le> n \<and> 1 \<le> column \<and> column \<le> n \<and> 1 \<le> num \<and> num \<le> n
               then (case h ! ans of
                       RefList rs \<Rightarrow>
                         (case h ! (rs ! nat (row - 1)) of
                            IntRow xs \<Rightarrow>
                              h[rs ! nat (row - 1) := IntRow (xs[nat (column - 1) := num])]
                          | RefList qs \<Rightarrow> h)
                     | IntRow xs \<Rightarrow> h)
               else h)
      else h)"

definition solve_sudoku_store :: "sat_oracle \<Rightarrow> store \<Rightarrow> nat \<Rightarrow> store \<times> (error + nat)" where
  "solve_sudoku_store solver h g =
     (case load_grid h g of
        None \<Rightarrow> (h, Inl TypeError)
      | Some grd \<Rightarrow>
          (case sudoku_cnf grd of
             Inl err \<Rightarrow> (h, Inl err)
           | Inr f \<Rightarrow>
               (case solver f of
                  Some model \<Rightarrow>
                    (let n = length grd;
                         hr = new_rows h n;
                         ha = new_list (fst hr) (snd hr)
                     in (fold (store_value (int n) (snd ha)) model (fst ha), Inr (snd ha)))
                | None \<Rightarrow> (h, Inr g))))"

text \<open>
  The state of the store while the model is read: the old objects, the \<open>n\<close> new rows
  holding the matrix \<open>A\<close>, and the new outer list.
\<close>

definition answer_store :: "store \<Rightarrow> nat \<Rightarrow> int list list \<Rightarrow> store \<Rightarrow> bool" where
  "answer_store h n A hh \<longleftrightarrow>
     hh = h @ map IntRow A @ [RefList [length h..<length h + n]] \<and> length A = n"

text \<open>
  Two small stores: the blank 1 by 1 grid at address 1, and the empty grid at address 0;
  and a solver that answers with variable 111 true among the variables \<open>1..111\<close>.
\<close>

definition one_store :: store where
  "one_store = [IntRow [0], RefList [0]]"

definition empty_store :: store where
  "empty_store = [RefList []]"

definition one_oracle :: sat_oracle where
  "one_oracle = (\<lambda>f. Some (full_model [111] 111))"

section \<open>Properties\<close>

subsection \<open>Models and concrete clause sets\<close>

lemma full_model_iff:
  "l \<in> set (full_model tr nv) \<longleftrightarrow>
     (1 \<le> l \<and> l \<le> nv \<and> l \<in> set tr) \<or> (l \<le> - 1 \<and> - nv \<le> l \<and> - l \<notin> set tr)"
proof -
  have "l \<in> set (full_model tr nv) \<longleftrightarrow> (\<exists>v. 1 \<le> v \<and> v \<le> nv \<and> l = (if v \<in> set tr then v else - v))"
    unfolding full_model_def by auto
  also have "\<dots> \<longleftrightarrow> (1 \<le> l \<and> l \<le> nv \<and> l \<in> set tr) \<or> (l \<le> - 1 \<and> - nv \<le> l \<and> - l \<notin> set tr)"
  proof
    assume "\<exists>v. 1 \<le> v \<and> v \<le> nv \<and> l = (if v \<in> set tr then v else - v)"
    then obtain v where "1 \<le> v" "v \<le> nv" "l = (if v \<in> set tr then v else - v)" by blast
    then show "(1 \<le> l \<and> l \<le> nv \<and> l \<in> set tr) \<or> (l \<le> - 1 \<and> - nv \<le> l \<and> - l \<notin> set tr)"
      by (cases "v \<in> set tr") auto
  next
    assume "(1 \<le> l \<and> l \<le> nv \<and> l \<in> set tr) \<or> (l \<le> - 1 \<and> - nv \<le> l \<and> - l \<notin> set tr)"
    then show "\<exists>v. 1 \<le> v \<and> v \<le> nv \<and> l = (if v \<in> set tr then v else - v)"
    proof
      assume "1 \<le> l \<and> l \<le> nv \<and> l \<in> set tr"
      then show ?thesis by (intro exI[of _ l]) simp
    next
      assume "l \<le> - 1 \<and> - nv \<le> l \<and> - l \<notin> set tr"
      then show ?thesis by (intro exI[of _ "- l"]) simp
    qed
  qed
  finally show ?thesis .
qed

lemma full_model_consistent: "consistent (full_model tr nv)"
  unfolding consistent_def by (auto simp: full_model_iff)

lemma pbg_new_encoder: "new_encoder pbg_grid 1 = Inr pbg_encoder"
  by code_simp

lemma pbg_encode: "encode pbg_encoder = Inr pbg_cnf"
  by code_simp

lemma pbg_sokoban_cnf: "sokoban_cnf pbg_grid 1 = Inr pbg_cnf"
  by (simp add: sokoban_cnf_def pbg_new_encoder pbg_encode)

lemma wall_sokoban_cnf: "sokoban_cnf wall_grid 1 = Inr wall_cnf"
  by code_simp

lemma pbg_model_sat: "satisfies pbg_model pbg_cnf"
  by (simp add: satisfies_def pbg_model_def pbg_cnf_def full_model_iff)

lemma wall_model_sat: "satisfies wall_model wall_cnf"
  by (simp add: satisfies_def wall_model_def wall_cnf_def full_model_iff)

subsection \<open>Exclusivity in every model of the encoding\<close>

lemma in_player_somewhere:
  "0 \<le> t \<Longrightarrow> t \<le> enc_T e \<Longrightarrow>
   [var_player x y t. (x, y) \<leftarrow> valid_positions e] \<in> set (player_somewhere e)"
  by (auto simp: player_somewhere_def)

lemma in_box_somewhere:
  "0 \<le> t \<Longrightarrow> t \<le> enc_T e \<Longrightarrow> 0 \<le> b \<Longrightarrow> b < num_boxes e \<Longrightarrow>
   [var_box b x y t. (x, y) \<leftarrow> valid_positions e] \<in> set (box_somewhere e)"
  unfolding box_somewhere_def
  by (auto intro!: bexI[of _ t] image_eqI[of _ _ b])

lemma in_concat_map: "x \<in> set xs \<Longrightarrow> c \<in> set (f x) \<Longrightarrow> c \<in> set (concat (map f xs))"
  by auto

lemma in_player_at_most_one:
  assumes "0 \<le> t" "t \<le> enc_T e" "(p, q) \<in> set (position_pairs (valid_positions e))"
  shows "[- var_player (fst p) (snd p) t, - var_player (fst q) (snd q) t] \<in> set (player_at_most_one e)"
  unfolding player_at_most_one_def
proof (rule in_concat_map[where x = t])
  show "t \<in> set [0..enc_T e]" using assms by simp
  show "[- var_player (fst p) (snd p) t, - var_player (fst q) (snd q) t]
    \<in> set (map (\<lambda>(p1, p2). [- var_player (fst p1) (snd p1) t, - var_player (fst p2) (snd p2) t])
          (position_pairs (valid_positions e)))"
    using assms(3) by (simp add: image_iff) (rule bexI[of _ "(p, q)"], simp_all)
qed

lemma in_box_at_most_one:
  assumes "0 \<le> t" "t \<le> enc_T e" "0 \<le> b" "b < num_boxes e"
    "(p, q) \<in> set (position_pairs (valid_positions e))"
  shows "[- var_box b (fst p) (snd p) t, - var_box b (fst q) (snd q) t] \<in> set (box_at_most_one e)"
  unfolding box_at_most_one_def
proof (rule in_concat_map[where x = t])
  show "t \<in> set [0..enc_T e]" using assms by simp
  show "[- var_box b (fst p) (snd p) t, - var_box b (fst q) (snd q) t]
    \<in> set (concat (map (\<lambda>b. map (\<lambda>(p1, p2). [- var_box b (fst p1) (snd p1) t, - var_box b (fst p2) (snd p2) t])
          (position_pairs (valid_positions e))) [0..num_boxes e - 1]))"
  proof (rule in_concat_map[where x = b])
    show "b \<in> set [0..num_boxes e - 1]" using assms by simp
    show "[- var_box b (fst p) (snd p) t, - var_box b (fst q) (snd q) t]
      \<in> set (map (\<lambda>(p1, p2). [- var_box b (fst p1) (snd p1) t, - var_box b (fst p2) (snd p2) t])
          (position_pairs (valid_positions e)))"
      using assms(5) by (simp add: image_iff) (rule bexI[of _ "(p, q)"], simp_all)
  qed
qed

lemma in_player_box_overlap:
  assumes "0 \<le> t" "t \<le> enc_T e" "0 \<le> b" "b < num_boxes e" "p \<in> set (valid_positions e)"
  shows "[- var_player (fst p) (snd p) t, - var_box b (fst p) (snd p) t] \<in> set (player_box_overlap e)"
  unfolding player_box_overlap_def
proof (rule in_concat_map[where x = t])
  show "t \<in> set [0..enc_T e]" using assms by simp
  show "[- var_player (fst p) (snd p) t, - var_box b (fst p) (snd p) t]
    \<in> set (concat (map (\<lambda>(x, y). map (\<lambda>b. [- var_player x y t, - var_box b x y t]) [0..num_boxes e - 1])
          (valid_positions e)))"
  proof (rule in_concat_map[where x = p])
    show "p \<in> set (valid_positions e)" by (rule assms(5))
    show "[- var_player (fst p) (snd p) t, - var_box b (fst p) (snd p) t]
      \<in> set (case p of (x, y) \<Rightarrow> map (\<lambda>b. [- var_player x y t, - var_box b x y t]) [0..num_boxes e - 1])"
      using assms(3,4) by (simp add: case_prod_beta)
  qed
qed

lemma in_box_box_overlap:
  assumes "0 \<le> t" "t \<le> enc_T e" "0 \<le> b1" "b1 < b2" "b2 < num_boxes e"
    "p \<in> set (valid_positions e)"
  shows "[- var_box b1 (fst p) (snd p) t, - var_box b2 (fst p) (snd p) t] \<in> set (box_box_overlap e)"
  unfolding box_box_overlap_def
proof (rule in_concat_map[where x = t])
  show "t \<in> set [0..enc_T e]" using assms by simp
  show "[- var_box b1 (fst p) (snd p) t, - var_box b2 (fst p) (snd p) t]
    \<in> set (concat (map (\<lambda>(x, y). concat (map (\<lambda>b1. map (\<lambda>b2. [- var_box b1 x y t, - var_box b2 x y t])
              [b1 + 1..num_boxes e - 1]) [0..num_boxes e - 2])) (valid_positions e)))"
  proof (rule in_concat_map[where x = p])
    show "p \<in> set (valid_positions e)" by (rule assms(6))
    have "[- var_box b1 (fst p) (snd p) t, - var_box b2 (fst p) (snd p) t]
      \<in> set (concat (map (\<lambda>b1. map (\<lambda>b2. [- var_box b1 (fst p) (snd p) t, - var_box b2 (fst p) (snd p) t])
              [b1 + 1..num_boxes e - 1]) [0..num_boxes e - 2]))"
    proof (rule in_concat_map[where x = b1])
      show "b1 \<in> set [0..num_boxes e - 2]" using assms by simp
      show "[- var_box b1 (fst p) (snd p) t, - var_box b2 (fst p) (snd p) t]
        \<in> set (map (\<lambda>b2. [- var_box b1 (fst p) (snd p) t, - var_box b2 (fst p) (snd p) t])
              [b1 + 1..num_boxes e - 1])"
        using assms(4,5) by simp
    qed
    then show "[- var_box b1 (fst p) (snd p) t, - var_box b2 (fst p) (snd p) t]
      \<in> set (case p of (x, y) \<Rightarrow> concat (map (\<lambda>b1. map (\<lambda>b2. [- var_box b1 x y t, - var_box b2 x y t])
              [b1 + 1..num_boxes e - 1]) [0..num_boxes e - 2]))"
      by (simp add: case_prod_beta)
  qed
qed

lemma position_pairs_nth:
  assumes "i < j" "j < length vp"
  shows "(vp ! i, vp ! j) \<in> set (position_pairs vp)"
proof -
  have "i \<in> {0..<length vp}" "j \<in> {i + 1..<length vp}" using assms by auto
  then show ?thesis unfolding position_pairs_def by (auto intro!: bexI[of _ i] image_eqI[of _ _ j])
qed

lemma position_pairs_cover:
  assumes "p \<in> set vp" "q \<in> set vp" "p \<noteq> q"
  shows "(p, q) \<in> set (position_pairs vp) \<or> (q, p) \<in> set (position_pairs vp)"
proof -
  obtain i where i: "i < length vp" "vp ! i = p" using assms(1) by (auto simp: in_set_conv_nth)
  obtain j where j: "j < length vp" "vp ! j = q" using assms(2) by (auto simp: in_set_conv_nth)
  have "i \<noteq> j" using i j assms(3) by auto
  then consider "i < j" | "j < i" by linarith
  then show ?thesis
  proof cases
    case 1
    from position_pairs_nth[OF 1 j(1)] show ?thesis using i j by simp
  next
    case 2
    from position_pairs_nth[OF 2 i(1)] show ?thesis using i j by simp
  qed
qed

lemma sat_clause: "satisfies m f \<Longrightarrow> c \<in> set f \<Longrightarrow> \<exists>l\<in>set c. l \<in> set m"
  by (simp add: satisfies_def)

lemma sat_binary:
  assumes "consistent m" "satisfies m f" "[- a, - b] \<in> set f"
  shows "\<not> (a \<in> set m \<and> b \<in> set m)"
proof
  assume ab: "a \<in> set m \<and> b \<in> set m"
  from sat_clause[OF assms(2,3)] have "- a \<in> set m \<or> - b \<in> set m" by auto
  then show False using assms(1) ab unfolding consistent_def by fastforce
qed

lemma encode_families:
  assumes "encode e = Inr f"
  shows "set (player_somewhere e) \<subseteq> set f" "set (player_at_most_one e) \<subseteq> set f"
    "set (box_somewhere e) \<subseteq> set f" "set (box_at_most_one e) \<subseteq> set f"
    "set (player_box_overlap e) \<subseteq> set f" "set (box_box_overlap e) \<subseteq> set f"
  using assms by (auto simp: encode_def split: option.splits)


lemma player_exactly_one:
  assumes enc: "encode e = Inr f" and con: "consistent m" and sat: "satisfies m f"
    and t: "0 \<le> t" "t \<le> enc_T e"
  shows "\<exists>!p. p \<in> set (valid_positions e) \<and> var_player (fst p) (snd p) t \<in> set m"
proof -
  let ?vp = "valid_positions e"
  have "[var_player x y t. (x, y) \<leftarrow> ?vp] \<in> set (player_somewhere e)"
    using t by (rule in_player_somewhere)
  then have "[var_player x y t. (x, y) \<leftarrow> ?vp] \<in> set f"
    using encode_families(1)[OF enc] by blast
  from sat_clause[OF sat this]
  obtain p where p: "p \<in> set ?vp" "var_player (fst p) (snd p) t \<in> set m"
    by (auto simp: case_prod_beta)
  have uniq: "q = p" if q: "q \<in> set ?vp" "var_player (fst q) (snd q) t \<in> set m" for q
  proof (rule ccontr)
    assume "q \<noteq> p"
    from position_pairs_cover[OF q(1) p(1) this]
    have "[- var_player (fst q) (snd q) t, - var_player (fst p) (snd p) t] \<in> set (player_at_most_one e)
        \<or> [- var_player (fst p) (snd p) t, - var_player (fst q) (snd q) t] \<in> set (player_at_most_one e)"
      using in_player_at_most_one[OF t] by blast
    then have "[- var_player (fst q) (snd q) t, - var_player (fst p) (snd p) t] \<in> set f
        \<or> [- var_player (fst p) (snd p) t, - var_player (fst q) (snd q) t] \<in> set f"
      using encode_families(2)[OF enc] by blast
    then show False using sat_binary[OF con sat] p(2) q(2) by blast
  qed
  show ?thesis using p uniq by blast
qed

lemma box_exactly_one:
  assumes enc: "encode e = Inr f" and con: "consistent m" and sat: "satisfies m f"
    and t: "0 \<le> t" "t \<le> enc_T e" and b: "0 \<le> b" "b < num_boxes e"
  shows "\<exists>!p. p \<in> set (valid_positions e) \<and> var_box b (fst p) (snd p) t \<in> set m"
proof -
  let ?vp = "valid_positions e"
  have "[var_box b x y t. (x, y) \<leftarrow> ?vp] \<in> set (box_somewhere e)"
    using t b by (rule in_box_somewhere)
  then have "[var_box b x y t. (x, y) \<leftarrow> ?vp] \<in> set f"
    using encode_families(3)[OF enc] by blast
  from sat_clause[OF sat this]
  obtain p where p: "p \<in> set ?vp" "var_box b (fst p) (snd p) t \<in> set m"
    by (auto simp: case_prod_beta)
  have uniq: "q = p" if q: "q \<in> set ?vp" "var_box b (fst q) (snd q) t \<in> set m" for q
  proof (rule ccontr)
    assume "q \<noteq> p"
    from position_pairs_cover[OF q(1) p(1) this]
    have "[- var_box b (fst q) (snd q) t, - var_box b (fst p) (snd p) t] \<in> set (box_at_most_one e)
        \<or> [- var_box b (fst p) (snd p) t, - var_box b (fst q) (snd q) t] \<in> set (box_at_most_one e)"
      using in_box_at_most_one[OF t b] by blast
    then have "[- var_box b (fst q) (snd q) t, - var_box b (fst p) (snd p) t] \<in> set f
        \<or> [- var_box b (fst p) (snd p) t, - var_box b (fst q) (snd q) t] \<in> set f"
      using encode_families(4)[OF enc] by blast
    then show False using sat_binary[OF con sat] p(2) q(2) by blast
  qed
  show ?thesis using p uniq by blast
qed

lemma player_box_apart:
  assumes enc: "encode e = Inr f" and con: "consistent m" and sat: "satisfies m f"
    and t: "0 \<le> t" "t \<le> enc_T e" and b: "0 \<le> b" "b < num_boxes e"
    and p: "p \<in> set (valid_positions e)"
  shows "\<not> (var_player (fst p) (snd p) t \<in> set m \<and> var_box b (fst p) (snd p) t \<in> set m)"
proof -
  have "[- var_player (fst p) (snd p) t, - var_box b (fst p) (snd p) t] \<in> set (player_box_overlap e)"
    using t b p by (rule in_player_box_overlap)
  then have "[- var_player (fst p) (snd p) t, - var_box b (fst p) (snd p) t] \<in> set f"
    using encode_families(5)[OF enc] by blast
  from sat_binary[OF con sat this] show ?thesis .
qed

lemma boxes_apart_ordered:
  assumes enc: "encode e = Inr f" and con: "consistent m" and sat: "satisfies m f"
    and t: "0 \<le> t" "t \<le> enc_T e" and b: "0 \<le> b1" "b1 < b2" "b2 < num_boxes e"
    and p: "p \<in> set (valid_positions e)"
  shows "\<not> (var_box b1 (fst p) (snd p) t \<in> set m \<and> var_box b2 (fst p) (snd p) t \<in> set m)"
proof -
  have "[- var_box b1 (fst p) (snd p) t, - var_box b2 (fst p) (snd p) t] \<in> set (box_box_overlap e)"
    using t b p by (rule in_box_box_overlap)
  then have "[- var_box b1 (fst p) (snd p) t, - var_box b2 (fst p) (snd p) t] \<in> set f"
    using encode_families(6)[OF enc] by blast
  from sat_binary[OF con sat this] show ?thesis .
qed

lemma boxes_apart:
  assumes enc: "encode e = Inr f" and con: "consistent m" and sat: "satisfies m f"
    and t: "0 \<le> t" "t \<le> enc_T e"
    and b: "0 \<le> b1" "b1 < num_boxes e" "0 \<le> b2" "b2 < num_boxes e" "b1 \<noteq> b2"
    and p: "p \<in> set (valid_positions e)"
  shows "\<not> (var_box b1 (fst p) (snd p) t \<in> set m \<and> var_box b2 (fst p) (snd p) t \<in> set m)"
proof (cases "b1 < b2")
  case True
  from boxes_apart_ordered[OF enc con sat t b(1) True b(4) p] show ?thesis .
next
  case False
  then have "b2 < b1" using b(5) by simp
  from boxes_apart_ordered[OF enc con sat t b(3) this b(2) p] show ?thesis by blast
qed

lemma lit_true_iff: "lit_true tr nv l \<longleftrightarrow> l \<in> set (full_model tr nv)"
  unfolding lit_true_def full_model_iff by auto

lemma full_model_satisfies_iff:
  "full_model_satisfies tr nv f \<longleftrightarrow> satisfies (full_model tr nv) f"
  unfolding full_model_satisfies_def satisfies_def
  by (simp add: list_all_iff list_ex_iff lit_true_iff)

lemma two_box_new_encoder: "new_encoder two_box_grid 3 = Inr two_box_encoder"
  by code_simp

lemma two_box_encode: "encode two_box_encoder = Inr two_box_cnf"
  by (simp add: two_box_cnf_def encode_def two_box_encoder_def)

lemma two_box_model_sat: "satisfies two_box_model two_box_cnf"
proof -
  have "full_model_satisfies [201, 102, 203, 304, 10100, 10001, 10002, 10003,
                 20300, 20301, 20302, 20403] 20403 two_box_cnf"
    by code_simp
  then show ?thesis by (simp add: full_model_satisfies_iff two_box_model_def)
qed


text \<open>
  C3. Every consistent model of the clause set produced by \<open>encode\<close> has, at every
  timestep \<open>t\<close> in \<open>[0, T]\<close>: exactly one valid position for the player, exactly one
  valid position for each box, no valid position shared by two distinct boxes, and no
  valid position shared by the player and a box.
\<close>

theorem encode_exclusivity:
  assumes "encode e = Inr f" and "consistent m" and "satisfies m f"
    and "0 \<le> t" and "t \<le> enc_T e"
  shows "(\<exists>!p. p \<in> set (valid_positions e) \<and> var_player (fst p) (snd p) t \<in> set m) \<and>
    (\<forall>b. 0 \<le> b \<and> b < num_boxes e \<longrightarrow>
       (\<exists>!p. p \<in> set (valid_positions e) \<and> var_box b (fst p) (snd p) t \<in> set m)) \<and>
    (\<forall>b1 b2 p. 0 \<le> b1 \<and> b1 < num_boxes e \<and> 0 \<le> b2 \<and> b2 < num_boxes e \<and> b1 \<noteq> b2 \<and>
       p \<in> set (valid_positions e) \<longrightarrow>
       \<not> (var_box b1 (fst p) (snd p) t \<in> set m \<and> var_box b2 (fst p) (snd p) t \<in> set m)) \<and>
    (\<forall>b p. 0 \<le> b \<and> b < num_boxes e \<and> p \<in> set (valid_positions e) \<longrightarrow>
       \<not> (var_player (fst p) (snd p) t \<in> set m \<and> var_box b (fst p) (snd p) t \<in> set m))"
proof (intro conjI allI impI)
  show "\<exists>!p. p \<in> set (valid_positions e) \<and> var_player (fst p) (snd p) t \<in> set m"
    using assms by (rule player_exactly_one)
next
  fix b assume "0 \<le> b \<and> b < num_boxes e"
  then show "\<exists>!p. p \<in> set (valid_positions e) \<and> var_box b (fst p) (snd p) t \<in> set m"
    using box_exactly_one[OF assms] by blast
next
  fix b1 b2 p
  assume "0 \<le> b1 \<and> b1 < num_boxes e \<and> 0 \<le> b2 \<and> b2 < num_boxes e \<and> b1 \<noteq> b2 \<and>
    p \<in> set (valid_positions e)"
  then show "\<not> (var_box b1 (fst p) (snd p) t \<in> set m \<and> var_box b2 (fst p) (snd p) t \<in> set m)"
    using boxes_apart[OF assms] by blast
next
  fix b p assume "0 \<le> b \<and> b < num_boxes e \<and> p \<in> set (valid_positions e)"
  then show "\<not> (var_player (fst p) (snd p) t \<in> set m \<and> var_box b (fst p) (snd p) t \<in> set m)"
    using player_box_apart[OF assms] by blast
qed

lemma two_box_valid_positions:
  "valid_positions two_box_encoder = [(0, 0), (0, 1), (0, 2), (0, 3), (0, 4)]"
  by code_simp

theorem encode_exclusivity_witness:
  "encode two_box_encoder = Inr two_box_cnf \<and> consistent two_box_model \<and>
   satisfies two_box_model two_box_cnf \<and> (0::int) \<le> 3 \<and> 3 \<le> enc_T two_box_encoder \<and>
   num_boxes two_box_encoder = 2 \<and> (0, 4) \<in> set (valid_positions two_box_encoder) \<and>
   (\<exists>!p. p \<in> set (valid_positions two_box_encoder) \<and>
      var_player (fst p) (snd p) 3 \<in> set two_box_model) \<and>
   (\<exists>!p. p \<in> set (valid_positions two_box_encoder) \<and>
      var_box 0 (fst p) (snd p) 3 \<in> set two_box_model) \<and>
   (\<exists>!p. p \<in> set (valid_positions two_box_encoder) \<and>
      var_box 1 (fst p) (snd p) 3 \<in> set two_box_model) \<and>
   \<not> (var_box 0 0 4 3 \<in> set two_box_model \<and> var_box 1 0 4 3 \<in> set two_box_model) \<and>
   \<not> (var_player 0 4 3 \<in> set two_box_model \<and> var_box 1 0 4 3 \<in> set two_box_model)"
proof -
  have con: "consistent two_box_model"
    unfolding two_box_model_def by (rule full_model_consistent)
  have t: "(0::int) \<le> 3" "3 \<le> enc_T two_box_encoder"
    by (simp_all add: two_box_encoder_def)
  have nb: "num_boxes two_box_encoder = 2" by (simp add: two_box_encoder_def)
  have vp: "(0, 4) \<in> set (valid_positions two_box_encoder)"
    by (simp add: two_box_valid_positions)
  note ex = encode_exclusivity[OF two_box_encode con two_box_model_sat t]
  have b0: "(0::int) \<le> 0 \<and> 0 < num_boxes two_box_encoder"
    and b1: "(0::int) \<le> 1 \<and> 1 < num_boxes two_box_encoder"
    using nb by simp_all
  have one: "\<exists>!p. p \<in> set (valid_positions two_box_encoder) \<and>
      var_player (fst p) (snd p) 3 \<in> set two_box_model"
    using ex by blast
  have box0: "\<exists>!p. p \<in> set (valid_positions two_box_encoder) \<and>
      var_box 0 (fst p) (snd p) 3 \<in> set two_box_model"
    using ex b0 by blast
  have box1: "\<exists>!p. p \<in> set (valid_positions two_box_encoder) \<and>
      var_box 1 (fst p) (snd p) 3 \<in> set two_box_model"
    using ex b1 by blast
  have "(0::int) \<le> 0 \<and> 0 < num_boxes two_box_encoder \<and> (0::int) \<le> 1 \<and>
      1 < num_boxes two_box_encoder \<and> (0::int) \<noteq> 1 \<and>
      ((0::int), (4::int)) \<in> set (valid_positions two_box_encoder)"
    using b0 b1 vp by simp
  then have "\<not> (var_box 0 (fst ((0::int), (4::int))) (snd ((0::int), (4::int))) 3 \<in> set two_box_model \<and>
      var_box 1 (fst ((0::int), (4::int))) (snd ((0::int), (4::int))) 3 \<in> set two_box_model)"
    using ex by blast
  then have apart: "\<not> (var_box 0 0 4 3 \<in> set two_box_model \<and> var_box 1 0 4 3 \<in> set two_box_model)"
    by simp
  have "(0::int) \<le> 1 \<and> 1 < num_boxes two_box_encoder \<and>
      ((0::int), (4::int)) \<in> set (valid_positions two_box_encoder)"
    using b1 vp by simp
  then have "\<not> (var_player (fst ((0::int), (4::int))) (snd ((0::int), (4::int))) 3 \<in> set two_box_model \<and>
      var_box 1 (fst ((0::int), (4::int))) (snd ((0::int), (4::int))) 3 \<in> set two_box_model)"
    using ex by blast
  then have papart: "\<not> (var_player 0 4 3 \<in> set two_box_model \<and> var_box 1 0 4 3 \<in> set two_box_model)"
    by simp
  show ?thesis
    using two_box_encode con two_box_model_sat t nb vp one box0 box1 apart papart by blast
qed

subsection \<open>The results of \<open>solve_sokoban\<close>\<close>

lemma consistentD: "consistent m \<Longrightarrow> l \<in> set m \<Longrightarrow> - l \<notin> set m"
  by (simp add: consistent_def)

text \<open>
  C6. When the encoded clause set is unsatisfiable (the solver being sound), or the
  solver reports no model, \<open>solve_sokoban\<close> returns the integer \<open>-1\<close>, which is not a
  move list, in particular not the empty one.
\<close>

theorem solve_sokoban_unsat_sentinel:
  assumes "sokoban_cnf g t = Inr f"
    and "(oracle_sound solver f \<and> unsatisfiable f) \<or> solver f = None \<or> solver f = Some []"
  shows "solve_sokoban solver g t = Inr (Sentinel (- 1)) \<and>
    (\<forall>ms. solve_sokoban solver g t \<noteq> Inr (Moves ms)) \<and>
    solve_sokoban solver g t \<noteq> Inr (Moves [])"
proof -
  have "solver f = None \<or> solver f = Some []"
  proof (cases "solver f")
    case None
    then show ?thesis by simp
  next
    case (Some m)
    show ?thesis
    proof (cases "oracle_sound solver f \<and> unsatisfiable f")
      case True
      then have "consistent m \<and> satisfies m f" using Some by (simp add: oracle_sound_def)
      then show ?thesis using True by (auto simp: unsatisfiable_def)
    next
      case False
      then show ?thesis using assms(2) by blast
    qed
  qed
  then have "solve_sokoban solver g t = Inr (Sentinel (- 1))"
    using assms(1)
    by (auto simp: solve_sokoban_def sokoban_cnf_def split: sum.splits)
  then show ?thesis by simp
qed

lemma no_goal_cnf:
  "sokoban_cnf no_goal_grid 0 =
     Inr [[1], [10100], [1, 101], [- 1, - 101], [10000, 10100], [- 10000, - 10100],
          [- 1, - 10000], [- 101, - 10100], []]"
  by code_simp

lemma empty_clause_unsatisfiable: "[] \<in> set f \<Longrightarrow> unsatisfiable f"
  unfolding unsatisfiable_def satisfies_def by fastforce

theorem solve_sokoban_unsat_sentinel_witness:
  "oracle_sound unsat_oracle
     [[1], [10100], [1, 101], [- 1, - 101], [10000, 10100], [- 10000, - 10100],
      [- 1, - 10000], [- 101, - 10100], []] \<and>
   unsatisfiable
     [[1], [10100], [1, 101], [- 1, - 101], [10000, 10100], [- 10000, - 10100],
      [- 1, - 10000], [- 101, - 10100], []] \<and>
   solve_sokoban unsat_oracle no_goal_grid 0 = Inr (Sentinel (- 1)) \<and>
   solve_sokoban unsat_oracle no_goal_grid 0 \<noteq> Inr (Moves [])"
proof -
  let ?f = "[[1], [10100], [1, 101], [- 1, - 101], [10000, 10100], [- 10000, - 10100],
      [- 1, - 10000], [- 101, - 10100], []] :: cnf"
  have s: "oracle_sound unsat_oracle ?f"
    by (simp add: oracle_sound_def unsat_oracle_def)
  have u: "unsatisfiable ?f" by (rule empty_clause_unsatisfiable) simp
  from solve_sokoban_unsat_sentinel[OF no_goal_cnf, of unsat_oracle] s u
  show ?thesis by blast
qed


lemma pbg_model_facts:
  assumes con: "consistent m" and sat: "satisfies m pbg_cnf"
  shows "1 \<in> set m" "2 \<notin> set m" "102 \<in> set m"
proof -
  have c1: "\<exists>l\<in>set [1]. l \<in> set m"
    by (rule sat_clause[OF sat]) (simp add: pbg_cnf_def)
  then show p0: "1 \<in> set m" by simp
  have "\<exists>l\<in>set [10100]. l \<in> set m"
    by (rule sat_clause[OF sat]) (simp add: pbg_cnf_def)
  then have b0: "10100 \<in> set m" by simp
  have "\<exists>l\<in>set [10201]. l \<in> set m"
    by (rule sat_clause[OF sat]) (simp add: pbg_cnf_def)
  then have g: "10201 \<in> set m" by simp
  have "[- 10101, - 10201] \<in> set pbg_cnf" by (simp add: pbg_cnf_def)
  from sat_binary[OF con sat this] g have nb: "10101 \<notin> set m" by blast
  have "\<exists>l\<in>set [- 1, - 10100, 10101, 102]. l \<in> set m"
    by (rule sat_clause[OF sat]) (simp add: pbg_cnf_def)
  then show p1: "102 \<in> set m"
    using consistentD[OF con p0] consistentD[OF con b0] nb by auto
  have "[- 2, - 102] \<in> set pbg_cnf" by (simp add: pbg_cnf_def)
  from sat_binary[OF con sat this] p1 show "2 \<notin> set m" by blast
qed

lemma pbg_decode:
  assumes "1 \<in> set m" "2 \<notin> set m" "102 \<in> set m"
  shows "decode m pbg_encoder = Inr [''R'']"
proof -
  have cells: "cell_positions (enc_N pbg_encoder) (enc_M pbg_encoder) = [(0, 0), (0, 1), (0, 2)]"
    by code_simp
  have f0: "find_player m pbg_encoder 0 = Some (0, 0)"
    using assms by (simp add: find_player_def cells var_player_def)
  have f1: "find_player m pbg_encoder 1 = Some (0, 1)"
    using assms by (simp add: find_player_def cells var_player_def)
  have ts: "[0..enc_T pbg_encoder] = [0, 1]" "[0..enc_T pbg_encoder - 1] = [0]"
    by (simp_all add: pbg_encoder_def upto_rec1)
  have "positions m pbg_encoder = [(0, 0), (0, 1)]"
    by (simp add: positions_def ts f0 f1)
  then show ?thesis
    by (simp add: decode_def ts move_at_def)
qed

text \<open>
  C7. For the layout \<open>P B G\<close> with horizon 1, \<open>pbg_encoder\<close> and \<open>pbg_cnf\<close> are the
  encoder object and the clause set; every consistent model of the clause set decodes
  to the one move \<open>R\<close>, a model exists, and \<open>solve_sokoban\<close> returns \<open>[R]\<close> with every
  sound and complete solver.
\<close>

theorem pbg_solves_to_right:
  "new_encoder pbg_grid 1 = Inr pbg_encoder \<and> encode pbg_encoder = Inr pbg_cnf \<and>
   (\<forall>m. consistent m \<and> satisfies m pbg_cnf \<longrightarrow> decode m pbg_encoder = Inr [''R'']) \<and>
   (\<exists>m. consistent m \<and> satisfies m pbg_cnf) \<and>
   (\<forall>solver. oracle_sound solver pbg_cnf \<and> oracle_complete solver pbg_cnf \<longrightarrow>
      solve_sokoban solver pbg_grid 1 = Inr (Moves [''R'']))"
proof (intro conjI allI impI)
  show "new_encoder pbg_grid 1 = Inr pbg_encoder" by (rule pbg_new_encoder)
  show "encode pbg_encoder = Inr pbg_cnf" by (rule pbg_encode)
  show ex: "\<exists>m. consistent m \<and> satisfies m pbg_cnf"
    using pbg_model_sat full_model_consistent[of "[1, 102, 10100, 10201]" 10201]
    unfolding pbg_model_def by blast
  show "decode m pbg_encoder = Inr [''R'']" if "consistent m \<and> satisfies m pbg_cnf" for m
    using that pbg_model_facts[of m] pbg_decode[of m] by blast
  show "solve_sokoban solver pbg_grid 1 = Inr (Moves [''R''])"
    if ok: "oracle_sound solver pbg_cnf \<and> oracle_complete solver pbg_cnf" for solver
  proof (cases "solver pbg_cnf")
    case None
    then have "unsatisfiable pbg_cnf" using ok by (simp add: oracle_complete_def)
    then show ?thesis using ex by (simp add: unsatisfiable_def)
  next
    case (Some m)
    then have m: "consistent m" "satisfies m pbg_cnf"
      using ok by (simp_all add: oracle_sound_def)
    have "m \<noteq> []" using pbg_model_facts(1)[OF m] by auto
    moreover have "decode m pbg_encoder = Inr [''R'']"
      using pbg_model_facts[OF m] by (rule pbg_decode)
    ultimately show ?thesis
      using Some by (simp add: solve_sokoban_def pbg_new_encoder pbg_encode)
  qed
qed

theorem pbg_solves_to_right_witness:
  "consistent pbg_model \<and> satisfies pbg_model pbg_cnf \<and>
   decode pbg_model pbg_encoder = Inr [''R''] \<and>
   oracle_sound pbg_oracle pbg_cnf \<and> oracle_complete pbg_oracle pbg_cnf \<and>
   solve_sokoban pbg_oracle pbg_grid 1 = Inr (Moves [''R''])"
proof -
  have con: "consistent pbg_model"
    unfolding pbg_model_def by (rule full_model_consistent)
  have s: "oracle_sound pbg_oracle pbg_cnf"
    using con pbg_model_sat by (simp add: oracle_sound_def pbg_oracle_def)
  have c: "oracle_complete pbg_oracle pbg_cnf"
    by (simp add: oracle_complete_def pbg_oracle_def)
  from pbg_solves_to_right con pbg_model_sat s c show ?thesis by blast
qed

lemma wall_new_encoder: "new_encoder wall_grid 1 = Inr wall_encoder"
  by code_simp

lemma wall_encode: "encode wall_encoder = Inr wall_cnf"
  by code_simp

lemma wall_decode: "decode wall_model wall_encoder = Inr []"
proof -
  have cells: "cell_positions (enc_N wall_encoder) (enc_M wall_encoder) =
      [(0, 0), (0, 1), (0, 2), (0, 3)]"
    by code_simp
  have f0: "find_player wall_model wall_encoder 0 = Some (0, 0)"
    by (simp add: find_player_def cells var_player_def wall_model_def full_model_iff)
  have f1: "find_player wall_model wall_encoder 1 = Some (0, 2)"
    by (simp add: find_player_def cells var_player_def wall_model_def full_model_iff)
  have ts: "[0..enc_T wall_encoder] = [0, 1]" "[0..enc_T wall_encoder - 1] = [0]"
    by (simp_all add: wall_encoder_def upto_rec1)
  have "positions wall_model wall_encoder = [(0, 0), (0, 2)]"
    by (simp add: positions_def ts f0 f1)
  then show ?thesis
    by (simp add: decode_def ts move_at_def)
qed

text \<open>
  C2. The layout \<open># P B G\<close> with horizon 1: \<open>wall_model\<close> is a consistent model of the
  clause set, and with it \<open>solve_sokoban\<close> returns the empty plan, although the only box
  starts on \<open>(0,2)\<close> and the only goal is \<open>(0,3)\<close>. The scan of \<open>decode\<close> runs over
  every cell of the grid, and the player variable of the wall cell is constrained by no
  clause.
\<close>

theorem wall_cell_empty_plan:
  "new_encoder wall_grid 1 = Inr wall_encoder \<and> encode wall_encoder = Inr wall_cnf \<and>
   consistent wall_model \<and> satisfies wall_model wall_cnf \<and>
   oracle_sound wall_oracle wall_cnf \<and>
   solve_sokoban wall_oracle wall_grid 1 = Inr (Moves []) \<and>
   boxes wall_encoder = [(0, 2)] \<and> goals wall_encoder = [(0, 3)]"
proof -
  have con: "consistent wall_model"
    unfolding wall_model_def by (rule full_model_consistent)
  have s: "oracle_sound wall_oracle wall_cnf"
    using con wall_model_sat by (simp add: oracle_sound_def wall_oracle_def)
  have ne: "wall_model \<noteq> []"
  proof -
    have "1 \<in> set wall_model" by (simp add: wall_model_def full_model_iff)
    then show ?thesis by auto
  qed
  have "solve_sokoban wall_oracle wall_grid 1 = Inr (Moves [])"
    using ne by (simp add: solve_sokoban_def wall_new_encoder wall_encode wall_oracle_def wall_decode)
  then show ?thesis
    using wall_new_encoder wall_encode con wall_model_sat s by (simp add: wall_encoder_def)
qed

theorem wall_cell_empty_plan_witness:
  "wall_oracle wall_cnf = Some wall_model \<and> satisfies wall_model wall_cnf \<and>
   solve_sokoban wall_oracle wall_grid 1 = Inr (Moves []) \<and>
   (0, 2) \<in> set (boxes wall_encoder) \<and> (0, 2) \<notin> set (goals wall_encoder)"
  using wall_cell_empty_plan by (simp add: wall_oracle_def)

subsection \<open>What \<open>decode\<close> does with an inconsistent model\<close>

text \<open>
  C4, as stated, fails: with two true player cells at time 0 \<open>decode\<close> returns a plan,
  and with a jump of two columns it returns the empty plan; no error is signalled.
\<close>

theorem decode_silent_counterexample:
  "decode [1, 101, - 201, - 2, 102, - 202] pbg_encoder = Inr [''R''] \<and>
   decode [1, - 101, - 201, - 2, - 102, 202] pbg_encoder = Inr []"
proof -
  have cells: "cell_positions (enc_N pbg_encoder) (enc_M pbg_encoder) = [(0, 0), (0, 1), (0, 2)]"
    by code_simp
  have ts: "[0..enc_T pbg_encoder] = [0, 1]" "[0..enc_T pbg_encoder - 1] = [0]"
    by (simp_all add: pbg_encoder_def upto_rec1)
  have "positions [1, 101, - 201, - 2, 102, - 202] pbg_encoder = [(0, 0), (0, 1)]"
    by (simp add: positions_def ts find_player_def cells var_player_def)
  moreover have "positions [1, - 101, - 201, - 2, - 102, 202] pbg_encoder = [(0, 0), (0, 2)]"
    by (simp add: positions_def ts find_player_def cells var_player_def)
  ultimately show ?thesis
    by (simp add: decode_def ts move_at_def)
qed


lemma find_player_None_iff:
  "find_player m e t = None \<longleftrightarrow>
     (\<forall>p\<in>set (cell_positions (enc_N e) (enc_M e)). var_player (fst p) (snd p) t \<notin> set m)"
  by (auto simp: find_player_def find_None_iff)

lemma found_length_le:
  "length (concat (map (\<lambda>t. case find_player m e t of None \<Rightarrow> [] | Some p \<Rightarrow> [p]) ts)) \<le> length ts"
  by (induction ts) (auto split: option.splits)

lemma found_length_all:
  "\<forall>t\<in>set ts. find_player m e t \<noteq> None \<Longrightarrow>
   length (concat (map (\<lambda>t. case find_player m e t of None \<Rightarrow> [] | Some p \<Rightarrow> [p]) ts)) = length ts"
  by (induction ts) (auto split: option.splits)

lemma found_length_less:
  "t \<in> set ts \<Longrightarrow> find_player m e t = None \<Longrightarrow>
   length (concat (map (\<lambda>t. case find_player m e t of None \<Rightarrow> [] | Some p \<Rightarrow> [p]) ts)) < length ts"
proof (induction ts)
  case Nil
  then show ?case by simp
next
  case (Cons a ts)
  show ?case
  proof (cases "a = t")
    case True
    then show ?thesis
      using Cons.prems(2) found_length_le[of m e ts] by simp
  next
    case False
    then have "t \<in> set ts" using Cons.prems(1) by simp
    from Cons.IH[OF this Cons.prems(2)] show ?thesis
      by (simp split: option.splits)
  qed
qed

lemma move_at_error: "move_at ps t = Inl err \<Longrightarrow> err = IndexError"
  by (auto simp: move_at_def Let_def split: if_splits)

lemma moves_from_ok:
  "\<forall>t\<in>set ts. nat t < length ps \<and> nat (t + 1) < length ps \<Longrightarrow>
   \<exists>ms. moves_from ps ts = Inr ms \<and> length ms \<le> length ts"
proof (induction ts)
  case Nil
  then show ?case by simp
next
  case (Cons a ts)
  then obtain ms where ms: "moves_from ps ts = Inr ms" "length ms \<le> length ts" by auto
  have "nat a < length ps \<and> nat (a + 1) < length ps" using Cons.prems by simp
  then obtain mv where mv: "move_at ps a = Inr mv" "length mv \<le> 1"
    by (auto simp: move_at_def Let_def)
  show ?case using ms mv by simp
qed

lemma moves_from_fail:
  "t \<in> set ts \<Longrightarrow> move_at ps t = Inl IndexError \<Longrightarrow> moves_from ps ts = Inl IndexError"
proof (induction ts)
  case Nil
  then show ?case by simp
next
  case (Cons a ts)
  show ?case
  proof (cases "move_at ps a")
    case (Inl err)
    then show ?thesis using move_at_error[OF Inl] by simp
  next
    case (Inr mv)
    then have "t \<in> set ts" using Cons.prems by auto
    from Cons.IH[OF this Cons.prems(2)] show ?thesis using Inr by simp
  qed
qed

text \<open>
  C4, amended. \<open>decode\<close> has no check of its own. When every timestep in \<open>[0, T]\<close> has at
  least one true player variable among the cells of the grid, \<open>decode\<close> returns a move
  list of at most \<open>T\<close> moves and signals nothing. When \<open>T \<ge> 1\<close> and some timestep has none,
  fewer than \<open>T + 1\<close> positions are found and \<open>decode\<close> fails with IndexError.
\<close>

theorem decode_no_consistency_check:
  "((\<forall>t\<in>{0..enc_T e}. \<exists>p\<in>set (cell_positions (enc_N e) (enc_M e)).
        var_player (fst p) (snd p) t \<in> set m) \<longrightarrow>
      (\<exists>ms. decode m e = Inr ms \<and> length ms \<le> nat (enc_T e))) \<and>
   (1 \<le> enc_T e \<and>
      (\<exists>t\<in>{0..enc_T e}. \<forall>p\<in>set (cell_positions (enc_N e) (enc_M e)).
        var_player (fst p) (snd p) t \<notin> set m) \<longrightarrow>
      decode m e = Inl IndexError)"
proof (intro conjI impI)
  assume "\<forall>t\<in>{0..enc_T e}. \<exists>p\<in>set (cell_positions (enc_N e) (enc_M e)).
        var_player (fst p) (snd p) t \<in> set m"
  then have "\<forall>t\<in>set [0..enc_T e]. find_player m e t \<noteq> None"
    by (simp add: find_player_None_iff)
  then have len: "length (positions m e) = nat (enc_T e + 1)"
    unfolding positions_def using found_length_all[of "[0..enc_T e]" m e]
    by simp
  have "\<forall>t\<in>set [0..enc_T e - 1]. nat t < length (positions m e) \<and> nat (t + 1) < length (positions m e)"
    using len by auto
  from moves_from_ok[OF this]
  obtain ms where "moves_from (positions m e) [0..enc_T e - 1] = Inr ms"
    "length ms \<le> length [0..enc_T e - 1]" by blast
  then show "\<exists>ms. decode m e = Inr ms \<and> length ms \<le> nat (enc_T e)"
    by (simp add: decode_def)
next
  assume a: "1 \<le> enc_T e \<and>
      (\<exists>t\<in>{0..enc_T e}. \<forall>p\<in>set (cell_positions (enc_N e) (enc_M e)).
        var_player (fst p) (snd p) t \<notin> set m)"
  then obtain t where t: "t \<in> set [0..enc_T e]" "find_player m e t = None"
    by (auto simp: find_player_None_iff)
  have "length (positions m e) < length [0..enc_T e]"
    unfolding positions_def by (rule found_length_less[OF t])
  then have "length (positions m e) < nat (enc_T e + 1)" by simp
  then have "\<not> nat (enc_T e - 1 + 1) < length (positions m e)" using a by simp
  then have "move_at (positions m e) (enc_T e - 1) = Inl IndexError"
    by (simp add: move_at_def)
  moreover have "enc_T e - 1 \<in> set [0..enc_T e - 1]" using a by simp
  ultimately show "decode m e = Inl IndexError"
    unfolding decode_def by (rule moves_from_fail[rotated])
qed

theorem decode_no_consistency_check_witness:
  "enc_T pbg_encoder = 1 \<and>
   (\<exists>p\<in>set (cell_positions (enc_N pbg_encoder) (enc_M pbg_encoder)).
        var_player (fst p) (snd p) 0 \<in> set pbg_model) \<and>
   (\<exists>p\<in>set (cell_positions (enc_N pbg_encoder) (enc_M pbg_encoder)).
        var_player (fst p) (snd p) 1 \<in> set pbg_model) \<and>
   (\<exists>ms. decode pbg_model pbg_encoder = Inr ms \<and> length ms \<le> nat (enc_T pbg_encoder)) \<and>
   1 \<le> enc_T pbg_encoder \<and>
   (\<exists>t\<in>{0..enc_T pbg_encoder}. \<forall>p\<in>set (cell_positions (enc_N pbg_encoder) (enc_M pbg_encoder)).
        var_player (fst p) (snd p) t \<notin> set [1, - 101, - 201, - 2, - 102, - 202]) \<and>
   decode [1, - 101, - 201, - 2, - 102, - 202] pbg_encoder = Inl IndexError"
proof -
  have cells: "cell_positions (enc_N pbg_encoder) (enc_M pbg_encoder) = [(0, 0), (0, 1), (0, 2)]"
    by code_simp
  have T: "enc_T pbg_encoder = 1" by (simp add: pbg_encoder_def)
  have rng: "{0..1::int} = {0, 1}" by auto
  have h1: "\<forall>t\<in>{0..enc_T pbg_encoder}. \<exists>p\<in>set (cell_positions (enc_N pbg_encoder) (enc_M pbg_encoder)).
        var_player (fst p) (snd p) t \<in> set pbg_model"
    unfolding cells T rng by (simp add: var_player_def pbg_model_def full_model_iff)
  have h2: "\<exists>t\<in>{0..enc_T pbg_encoder}. \<forall>p\<in>set (cell_positions (enc_N pbg_encoder) (enc_M pbg_encoder)).
        var_player (fst p) (snd p) t \<notin> set [1, - 101, - 201, - 2, - 102, - 202]"
    unfolding cells T rng by (simp add: var_player_def)
  have h3: "1 \<le> enc_T pbg_encoder" by (simp add: T)
  from decode_no_consistency_check[of pbg_encoder pbg_model] h1
  have c1: "\<exists>ms. decode pbg_model pbg_encoder = Inr ms \<and> length ms \<le> nat (enc_T pbg_encoder)"
    by blast
  from decode_no_consistency_check[of pbg_encoder "[1, - 101, - 201, - 2, - 102, - 202]"] h2 h3
  have c2: "decode [1, - 101, - 201, - 2, - 102, - 202] pbg_encoder = Inl IndexError"
    by blast
  have h1': "(\<exists>p\<in>set (cell_positions (enc_N pbg_encoder) (enc_M pbg_encoder)).
        var_player (fst p) (snd p) 0 \<in> set pbg_model) \<and>
      (\<exists>p\<in>set (cell_positions (enc_N pbg_encoder) (enc_M pbg_encoder)).
        var_player (fst p) (snd p) 1 \<in> set pbg_model)"
    using h1 unfolding T rng by blast
  show ?thesis using T h1' h2 h3 c1 c2 by blast
qed

subsection \<open>Inputs without a player or with a dimension that is no square\<close>

lemma cell_positions_iff:
  "(i, j) \<in> set (cell_positions n m) \<longleftrightarrow> 0 \<le> i \<and> i < n \<and> 0 \<le> j \<and> j < m"
  by (auto simp: cell_positions_def image_iff)

lemma classify_grid: "grid (classify c p e) = grid e"
  by (simp add: classify_def)

lemma classify_player: "c \<noteq> ''P'' \<Longrightarrow> player_start (classify c p e) = player_start e"
  by (simp add: classify_def)

lemma parse_cells_no_player:
  assumes "\<forall>p\<in>set ps. nat (fst p) < length (grid e) \<and>
      nat (snd p) < length (grid e ! nat (fst p)) \<and>
      grid e ! nat (fst p) ! nat (snd p) \<noteq> ''P''"
  shows "\<exists>e'. parse_cells ps e = Inr e' \<and> player_start e' = player_start e"
  using assms
proof (induction ps arbitrary: e)
  case Nil
  then show ?case by simp
next
  case (Cons p ps)
  obtain i j where p: "p = (i, j)" by (cases p)
  let ?e = "classify (grid e ! nat i ! nat j) (i, j) e"
  have ok: "nat i < length (grid e)" "nat j < length (grid e ! nat i)"
    "grid e ! nat i ! nat j \<noteq> ''P''"
    using Cons.prems p by auto
  have "\<forall>q\<in>set ps. nat (fst q) < length (grid ?e) \<and>
      nat (snd q) < length (grid ?e ! nat (fst q)) \<and>
      grid ?e ! nat (fst q) ! nat (snd q) \<noteq> ''P''"
    using Cons.prems by (simp add: classify_grid)
  from Cons.IH[OF this]
  obtain e' where "parse_cells ps ?e = Inr e'" "player_start e' = player_start ?e" by blast
  then show ?case using ok p by (simp add: classify_player)
qed

lemma new_encoder_no_player:
  assumes "g \<noteq> []" and "\<forall>r\<in>set g. length (hd g) \<le> length r \<and> ''P'' \<notin> set r"
  shows "\<exists>e. new_encoder g t = Inr e \<and> player_start e = None"
proof -
  obtain r0 rs where g: "g = r0 # rs" using assms(1) by (cases g) auto
  let ?e = "\<lparr>grid = g, enc_T = t, enc_N = int (length g), enc_M = int (length r0),
      goals = [], boxes = [], walls = [], player_start = None, num_boxes = 0\<rparr>"
  have "\<forall>p\<in>set (cell_positions (enc_N ?e) (enc_M ?e)). nat (fst p) < length (grid ?e) \<and>
      nat (snd p) < length (grid ?e ! nat (fst p)) \<and>
      grid ?e ! nat (fst p) ! nat (snd p) \<noteq> ''P''"
  proof
    fix p assume "p \<in> set (cell_positions (enc_N ?e) (enc_M ?e))"
    then have b: "0 \<le> fst p" "fst p < int (length g)" "0 \<le> snd p" "snd p < int (length r0)"
      using cell_positions_iff[of "fst p" "snd p"] by simp_all
    then have i: "nat (fst p) < length g" by simp
    then have row: "g ! nat (fst p) \<in> set g" by simp
    then have "length r0 \<le> length (g ! nat (fst p))" "''P'' \<notin> set (g ! nat (fst p))"
      using assms(2) g by auto
    moreover have "nat (snd p) < length r0" using b by simp
    ultimately have "nat (snd p) < length (g ! nat (fst p))"
      "g ! nat (fst p) ! nat (snd p) \<noteq> ''P''"
      by (auto simp: in_set_conv_nth)
    then show "nat (fst p) < length (grid ?e) \<and>
      nat (snd p) < length (grid ?e ! nat (fst p)) \<and>
      grid ?e ! nat (fst p) ! nat (snd p) \<noteq> ''P''"
      using i by simp
  qed
  from parse_cells_no_player[OF this]
  obtain e' where "parse_grid ?e = Inr e'" "player_start e' = None"
    unfolding parse_grid_def by auto
  then show ?thesis by (simp add: new_encoder_def g)
qed

lemma int_sqrt_pos: "1 \<le> n \<Longrightarrow> 1 \<le> int_sqrt n"
proof -
  assume n: "1 \<le> n"
  then have "(1::int) \<in> set (filter (\<lambda>k. k * k \<le> n) [1..n])" by simp
  then have "filter (\<lambda>k. k * k \<le> n) [1..n] \<noteq> []" by (metis empty_iff list.set(1))
  then have "0 < length (filter (\<lambda>k. k * k \<le> n) [1..n])" by simp
  then show ?thesis unfolding int_sqrt_def by linarith
qed

lemma initial_clauses_ok:
  assumes "\<forall>p\<in>set ps. nat (fst p) < length g \<and> nat (snd p) < length (g ! nat (fst p))"
  shows "\<exists>cs. initial_clauses g ps = Inr cs"
  using assms
proof (induction ps)
  case Nil
  then show ?case by simp
next
  case (Cons p ps)
  obtain i j where p: "p = (i, j)" by (cases p)
  from Cons obtain cs where "initial_clauses g ps = Inr cs" by auto
  then show ?case using Cons.prems p by simp
qed

lemma row_clauses_nonempty: "1 \<le> n \<Longrightarrow> row_clauses n \<noteq> []"
proof -
  assume "1 \<le> n"
  then have "[1..n] = 1 # [2..n]" by (simp add: upto_rec1)
  then show ?thesis by (simp add: row_clauses_def)
qed

lemma sudoku_cnf_ok:
  assumes "s \<noteq> []" and "\<forall>r\<in>set s. length s \<le> length r"
  shows "\<exists>f. sudoku_cnf s = Inr f \<and> f \<noteq> []"
proof -
  let ?n = "int (length s)"
  have n: "1 \<le> ?n" using assms(1) by (cases s) auto
  from int_sqrt_pos[OF n] obtain starts where st: "range_step 1 (?n + 1) (int_sqrt ?n) = Inr starts"
    by (auto simp: range_step_def)
  have "\<forall>p\<in>set (cell_positions ?n ?n). nat (fst p) < length s \<and> nat (snd p) < length (s ! nat (fst p))"
  proof
    fix p assume "p \<in> set (cell_positions ?n ?n)"
    then have b: "0 \<le> fst p" "fst p < ?n" "0 \<le> snd p" "snd p < ?n"
      using cell_positions_iff[of "fst p" "snd p"] by simp_all
    then have i: "nat (fst p) < length s" by simp
    then have "length s \<le> length (s ! nat (fst p))" using assms(2) by simp
    then show "nat (fst p) < length s \<and> nat (snd p) < length (s ! nat (fst p))"
      using i b by simp
  qed
  from initial_clauses_ok[OF this] obtain cs where "initial_clauses s (cell_positions ?n ?n) = Inr cs"
    by blast
  then show ?thesis using st row_clauses_nonempty[OF n]
    by (simp add: sudoku_cnf_def Let_def)
qed

text \<open>
  C5, as stated, fails: the layout without a player cell is parsed without error, and the
  2 by 2 Sudoku grid, whose dimension is no perfect square, gets its twenty clauses and
  comes back from \<open>solve_sudoku\<close> without an error.
\<close>

theorem no_parse_error_counterexample:
  "new_encoder no_player_grid 1 =
     Inr \<lparr>grid = [[''.'', ''B'', ''G'']], enc_T = 1, enc_N = 1, enc_M = 3, goals = [(0, 2)],
          boxes = [(0, 1)], walls = [], player_start = None, num_boxes = 1\<rparr> \<and>
   sudoku_cnf blank2 =
     Inr [[111, 121], [112, 122], [211, 221], [212, 222], [111, 211], [112, 212],
          [121, 221], [122, 222], [111], [112], [121], [122], [211], [212], [221], [222],
          [- 111, - 112], [- 121, - 122], [- 211, - 212], [- 221, - 222]] \<and>
   solve_sudoku unsat_oracle blank2 = Inr blank2"
  by code_simp

text \<open>
  C5, amended. A layout without a player cell (rows at least as long as the first) is
  parsed without error and leaves \<open>player_start\<close> at \<open>None\<close>; \<open>encode\<close> then raises
  TypeError before any clause exists, and \<open>solve_sokoban\<close> ends with that TypeError.
  \<open>solve_sudoku\<close> does not test whether the dimension is a perfect square: for every
  non-empty grid whose rows are at least as long as the grid is high it builds a
  non-empty clause set and returns a matrix.
\<close>

theorem malformed_input_behaviour:
  "(g \<noteq> [] \<and> (\<forall>r\<in>set g. length (hd g) \<le> length r \<and> ''P'' \<notin> set r) \<longrightarrow>
      (\<exists>e. new_encoder g t = Inr e \<and> player_start e = None \<and> encode e = Inl TypeError) \<and>
      sokoban_cnf g t = Inl TypeError \<and> solve_sokoban solver g t = Inl TypeError) \<and>
   (s \<noteq> [] \<and> (\<forall>r\<in>set s. length s \<le> length r) \<longrightarrow>
      (\<exists>f. sudoku_cnf s = Inr f \<and> f \<noteq> []) \<and> (\<exists>res. solve_sudoku solver s = Inr res))"
proof (intro conjI impI)
  assume a: "g \<noteq> [] \<and> (\<forall>r\<in>set g. length (hd g) \<le> length r \<and> ''P'' \<notin> set r)"
  then obtain e where e: "new_encoder g t = Inr e" "player_start e = None"
    using new_encoder_no_player[of g t] by blast
  then have enc: "encode e = Inl TypeError" by (simp add: encode_def)
  show "\<exists>e. new_encoder g t = Inr e \<and> player_start e = None \<and> encode e = Inl TypeError"
    using e enc by blast
  show "sokoban_cnf g t = Inl TypeError" using e enc by (simp add: sokoban_cnf_def)
  show "solve_sokoban solver g t = Inl TypeError" using e enc by (simp add: solve_sokoban_def)
next
  assume a: "s \<noteq> [] \<and> (\<forall>r\<in>set s. length s \<le> length r)"
  then obtain f where f: "sudoku_cnf s = Inr f" "f \<noteq> []"
    using sudoku_cnf_ok[of s] by blast
  show "\<exists>f. sudoku_cnf s = Inr f \<and> f \<noteq> []" using f by blast
  show "\<exists>res. solve_sudoku solver s = Inr res"
    using f by (simp add: solve_sudoku_def split: option.splits)
qed

theorem malformed_input_behaviour_witness:
  "no_player_grid = [[''.'', ''B'', ''G'']] \<and>
   sokoban_cnf no_player_grid 1 = Inl TypeError \<and>
   solve_sokoban pbg_oracle no_player_grid 1 = Inl TypeError \<and>
   blank2 = [[0, 0], [0, 0]] \<and>
   (\<exists>f. sudoku_cnf blank2 = Inr f \<and> f \<noteq> []) \<and>
   (\<exists>res. solve_sudoku pbg_oracle blank2 = Inr res)"
proof -
  have h1: "no_player_grid \<noteq> [] \<and>
      (\<forall>r\<in>set no_player_grid. length (hd no_player_grid) \<le> length r \<and> ''P'' \<notin> set r)"
    by (simp add: no_player_grid_def)
  have h2: "blank2 \<noteq> [] \<and> (\<forall>r\<in>set blank2. length blank2 \<le> length r)"
    by (simp add: blank2_def)
  from malformed_input_behaviour[of no_player_grid 1 pbg_oracle blank2] h1 h2
  show ?thesis by (simp add: no_player_grid_def blank2_def)
qed

subsection \<open>The results of \<open>solve_sudoku\<close>\<close>

lemma blank2_cnf:
  "sudoku_cnf blank2 =
     Inr [[111, 121], [112, 122], [211, 221], [212, 222], [111, 211], [112, 212],
          [121, 221], [122, 222], [111], [112], [121], [122], [211], [212], [221], [222],
          [- 111, - 112], [- 121, - 122], [- 211, - 212], [- 221, - 222]]"
  by code_simp

text \<open>
  C8. When the clause set of a Sudoku grid is unsatisfiable (the solver being sound), or
  the solver reports no model, \<open>solve_sudoku\<close> returns the grid it was given.
\<close>

theorem solve_sudoku_unsat_returns_input:
  assumes "sudoku_cnf g = Inr f"
    and "(oracle_sound solver f \<and> unsatisfiable f) \<or> solver f = None"
  shows "solve_sudoku solver g = Inr g"
proof -
  have "solver f = None"
  proof (cases "solver f")
    case None
    then show ?thesis .
  next
    case (Some m)
    then have "oracle_sound solver f \<and> unsatisfiable f" using assms(2) by simp
    then have "consistent m \<and> satisfies m f" "unsatisfiable f"
      using Some by (simp_all add: oracle_sound_def)
    then show ?thesis by (auto simp: unsatisfiable_def)
  qed
  then show ?thesis using assms(1) by (simp add: solve_sudoku_def)
qed

theorem solve_sudoku_unsat_returns_input_witness:
  "oracle_sound unsat_oracle
     [[111, 121], [112, 122], [211, 221], [212, 222], [111, 211], [112, 212],
      [121, 221], [122, 222], [111], [112], [121], [122], [211], [212], [221], [222],
      [- 111, - 112], [- 121, - 122], [- 211, - 212], [- 221, - 222]] \<and>
   unsatisfiable
     [[111, 121], [112, 122], [211, 221], [212, 222], [111, 211], [112, 212],
      [121, 221], [122, 222], [111], [112], [121], [122], [211], [212], [221], [222],
      [- 111, - 112], [- 121, - 122], [- 211, - 212], [- 221, - 222]] \<and>
   solve_sudoku unsat_oracle blank2 = Inr blank2"
proof -
  let ?f = "[[111, 121], [112, 122], [211, 221], [212, 222], [111, 211], [112, 212],
      [121, 221], [122, 222], [111], [112], [121], [122], [211], [212], [221], [222],
      [- 111, - 112], [- 121, - 122], [- 211, - 212], [- 221, - 222]] :: cnf"
  have s: "oracle_sound unsat_oracle ?f"
    by (simp add: oracle_sound_def unsat_oracle_def)
  have u: "unsatisfiable ?f"
    unfolding unsatisfiable_def
  proof
    assume "\<exists>m. consistent m \<and> satisfies m ?f"
    then obtain m where m: "consistent m" "satisfies m ?f" by blast
    have "\<exists>l\<in>set [111]. l \<in> set m" by (rule sat_clause[OF m(2)]) simp
    moreover have "\<exists>l\<in>set [112]. l \<in> set m" by (rule sat_clause[OF m(2)]) simp
    moreover have "\<not> (111 \<in> set m \<and> 112 \<in> set m)"
      by (rule sat_binary[OF m]) simp
    ultimately show False by simp
  qed
  from solve_sudoku_unsat_returns_input[OF blank2_cnf, of unsat_oracle] s u
  show ?thesis by blast
qed

lemma write_value_keeps:
  assumes "length ans = k" and "\<forall>r<k. length (ans ! r) = k"
    and "\<forall>r<k. \<forall>c<k. 9 \<le> c \<longrightarrow> ans ! r ! c = 0"
  shows "length (write_value n v ans) = k \<and>
    (\<forall>r<k. length (write_value n v ans ! r) = k) \<and>
    (\<forall>r<k. \<forall>c<k. 9 \<le> c \<longrightarrow> write_value n v ans ! r ! c = 0)"
proof (cases "0 < v \<and> 1 \<le> v div 100 \<and> v div 100 \<le> n \<and> 1 \<le> (v div 10) mod 10 \<and>
    (v div 10) mod 10 \<le> n \<and> 1 \<le> v mod 10 \<and> v mod 10 \<le> n")
  case False
  then have "write_value n v ans = ans" by (auto simp: write_value_def Let_def)
  then show ?thesis using assms by simp
next
  case True
  let ?i = "nat (v div 100 - 1)" and ?j = "nat ((v div 10) mod 10 - 1)"
  have w: "write_value n v ans = ans[?i := (ans ! ?i)[?j := v mod 10]]"
    using True by (simp add: write_value_def Let_def)
  have j: "?j < 9" using True by simp
  have len: "length (write_value n v ans) = k" using assms(1) by (simp add: w)
  have row: "length (write_value n v ans ! r) = k \<and>
      (\<forall>c<k. 9 \<le> c \<longrightarrow> write_value n v ans ! r ! c = 0)" if r: "r < k" for r
  proof (cases "r = ?i")
    case True
    then have "write_value n v ans ! r = (ans ! r)[?j := v mod 10]"
      using r assms(1) by (simp add: w)
    then show ?thesis using assms(2,3) r j by (simp add: nth_list_update)
  next
    case False
    then have "write_value n v ans ! r = ans ! r" by (simp add: w)
    then show ?thesis using assms(2,3) r by simp
  qed
  show ?thesis using len row by blast
qed

lemma decode_model_keeps:
  assumes "length ans = k" and "\<forall>r<k. length (ans ! r) = k"
    and "\<forall>r<k. \<forall>c<k. 9 \<le> c \<longrightarrow> ans ! r ! c = 0"
  shows "\<forall>r<k. \<forall>c<k. 9 \<le> c \<longrightarrow> fold (write_value n) model ans ! r ! c = 0"
  using assms
proof (induction model arbitrary: ans)
  case Nil
  then show ?case by simp
next
  case (Cons v model)
  from write_value_keeps[OF Cons.prems, of n v]
  show ?case using Cons.IH[of "write_value n v ans"] by simp
qed

lemma decode_model_high_columns:
  "r < nat n \<Longrightarrow> c < nat n \<Longrightarrow> 9 \<le> c \<Longrightarrow> decode_model n model ! r ! c = 0"
  unfolding decode_model_def
  using decode_model_keeps[of "replicate (nat n) (replicate (nat n) 0)" "nat n" n model]
  by simp

text \<open>
  C9. The blank 16 by 16 grid is a solvable puzzle and 16 is a perfect square. Whatever
  the solver answers, \<open>solve_sudoku\<close> returns a matrix whose cells in the tenth and in
  the sixteenth column of the first and last row are 0: the decoder reads the column as
  one decimal digit, so no column beyond the ninth is ever written.
\<close>

theorem blank16_not_determined:
  "\<exists>res. solve_sudoku solver blank16 = Inr res \<and> res ! 0 ! 9 = 0 \<and> res ! 15 ! 15 = 0"
proof -
  have "blank16 \<noteq> []" "\<forall>r\<in>set blank16. length blank16 \<le> length r"
    by (simp_all add: blank16_def)
  then obtain f where f: "sudoku_cnf blank16 = Inr f"
    using sudoku_cnf_ok[of blank16] by blast
  show ?thesis
  proof (cases "solver f")
    case None
    then have "solve_sudoku solver blank16 = Inr blank16" using f by (simp add: solve_sudoku_def)
    moreover have "blank16 ! 0 ! 9 = 0" "blank16 ! 15 ! 15 = 0" by (simp_all add: blank16_def)
    ultimately show ?thesis by blast
  next
    case (Some model)
    then have "solve_sudoku solver blank16 = Inr (decode_model 16 model)"
      using f by (simp add: solve_sudoku_def blank16_def)
    moreover have "decode_model 16 model ! 0 ! 9 = 0" "decode_model 16 model ! 15 ! 15 = 0"
      by (simp_all add: decode_model_high_columns)
    ultimately show ?thesis by blast
  qed
qed

subsection \<open>Collisions of the variable ids\<close>

text \<open>
  C1. The ids are packed into decimal places of fixed width. With horizon 100 on a
  grid of two columns the player at \<open>(0,0)\<close> at time 100 and the player at \<open>(0,1)\<close> at
  time 0 share id 101; on a grid of eleven rows the player at \<open>(10,0)\<close> at time 0 shares
  id 10001 with box 0 at \<open>(0,0)\<close> at time 1; in a Sudoku of size 16 the value 11 in cell
  \<open>(1,1)\<close> shares id 121 with the value 1 in cell \<open>(1,2)\<close>, and unpacking 121 as
  \<open>solve_sudoku\<close> does gives the latter.
\<close>

theorem variable_ids_collide:
  "var_player 0 0 100 = var_player 0 1 0 \<and>
   var_player 10 0 0 = var_box 0 0 0 1 \<and>
   var_box 0 0 0 100 = var_box 0 0 1 0 \<and>
   sudoku_var 1 1 11 = sudoku_var 1 2 1 \<and>
   (sudoku_var 1 1 11 div 100, (sudoku_var 1 1 11 div 10) mod 10, sudoku_var 1 1 11 mod 10) =
     (1, 2, 1)"
  by (simp add: var_player_def var_box_def sudoku_var_def)

subsection \<open>\<open>solve_sudoku\<close> and the store\<close>

lemma load_rows_map:
  "\<forall>a\<in>set as. a < length hh \<and> hh ! a = IntRow (rowf a) \<Longrightarrow>
   load_rows hh as = Some (map rowf as)"
  by (induction as) (auto simp: load_row_def)

lemma load_rows_prefix:
  "load_rows h as = Some grd \<Longrightarrow> take (length h) hh = h \<Longrightarrow> load_rows hh as = Some grd"
proof (induction as arbitrary: grd)
  case Nil
  then show ?case by simp
next
  case (Cons a as)
  from Cons.prems(1) obtain xs xss where
    a: "load_row h a = Some xs" and as: "load_rows h as = Some xss" and grd: "grd = xs # xss"
    by (auto split: option.splits)
  from a have ah: "a < length h" "h ! a = IntRow xs"
    by (auto simp: load_row_def split: if_splits obj.splits)
  have len: "length h \<le> length hh"
    using arg_cong[OF Cons.prems(2), of length] by simp
  have "hh ! a = h ! a" using ah(1) Cons.prems(2) by (metis nth_take)
  then have "load_row hh a = Some xs" using ah len by (simp add: load_row_def)
  then show ?case using Cons.IH[OF as Cons.prems(2)] grd by simp
qed

lemma load_grid_prefix:
  assumes "load_grid h g = Some grd" and "take (length h) hh = h"
  shows "load_grid hh g = Some grd"
proof -
  from assms(1) obtain rs where g: "g < length h" "h ! g = RefList rs" "load_rows h rs = Some grd"
    by (auto simp: load_grid_def split: if_splits obj.splits)
  have len: "length h \<le> length hh"
    using arg_cong[OF assms(2), of length] by simp
  have "hh ! g = h ! g" using g(1) assms(2) by (metis nth_take)
  then show ?thesis
    using g len load_rows_prefix[OF g(3) assms(2)] by (simp add: load_grid_def)
qed

lemma store_value_step:
  assumes "answer_store h n A hh"
  shows "answer_store h n (write_value (int n) v A) (store_value (int n) (length h + n) v hh)"
proof (cases "0 < v \<and> 1 \<le> v div 100 \<and> v div 100 \<le> int n \<and> 1 \<le> (v div 10) mod 10 \<and>
    (v div 10) mod 10 \<le> int n \<and> 1 \<le> v mod 10 \<and> v mod 10 \<le> int n")
  case False
  then have "write_value (int n) v A = A" "store_value (int n) (length h + n) v hh = hh"
    by (auto simp: write_value_def store_value_def Let_def)
  then show ?thesis using assms by simp
next
  case True
  let ?i = "nat (v div 100 - 1)" and ?j = "nat ((v div 10) mod 10 - 1)"
  from assms have hh: "hh = h @ map IntRow A @ [RefList [length h..<length h + n]]"
    and lenA: "length A = n"
    by (simp_all add: answer_store_def)
  have "0 \<le> v div 100 - 1" using True by simp
  then have "?i < n \<longleftrightarrow> v div 100 - 1 < int n" by (rule nat_less_iff)
  then have i: "?i < n" using True by simp
  have ans: "hh ! (length h + n) = RefList [length h..<length h + n]"
    using lenA by (simp add: hh nth_append)
  have ri: "[length h..<length h + n] ! ?i = length h + ?i" using i by simp
  have row: "hh ! (length h + ?i) = IntRow (A ! ?i)"
    using i lenA by (simp add: hh nth_append)
  have w: "write_value (int n) v A = A[?i := (A ! ?i)[?j := v mod 10]]"
    using True by (simp add: write_value_def Let_def)
  have s: "store_value (int n) (length h + n) v hh =
      hh[length h + ?i := IntRow ((A ! ?i)[?j := v mod 10])]"
    using True by (simp add: store_value_def Let_def ans ri row)
  have "hh[length h + ?i := IntRow ((A ! ?i)[?j := v mod 10])] =
      h @ map IntRow (A[?i := (A ! ?i)[?j := v mod 10]]) @ [RefList [length h..<length h + n]]"
    using i lenA by (simp add: hh list_update_append map_update)
  then show ?thesis using lenA by (simp add: answer_store_def w s)
qed

lemma store_value_fold:
  "answer_store h n A hh \<Longrightarrow>
   answer_store h n (fold (write_value (int n)) model A)
     (fold (store_value (int n) (length h + n)) model hh)"
proof (induction model arbitrary: A hh)
  case Nil
  then show ?case by simp
next
  case (Cons v model)
  from Cons.IH[OF store_value_step[OF Cons.prems, of v]] show ?case by simp
qed

lemma answer_store_load:
  assumes "answer_store h n A hh"
  shows "take (length h) hh = h" and "hh ! (length h + n) = RefList [length h..<length h + n]"
    and "load_grid hh (length h + n) = Some A"
proof -
  from assms have hh: "hh = h @ map IntRow A @ [RefList [length h..<length h + n]]"
    and lenA: "length A = n"
    by (simp_all add: answer_store_def)
  show "take (length h) hh = h" by (simp add: hh)
  show ans: "hh ! (length h + n) = RefList [length h..<length h + n]"
    using lenA by (simp add: hh nth_append)
  have "\<forall>a\<in>set [length h..<length h + n]. a < length hh \<and> hh ! a = IntRow (A ! (a - length h))"
    using lenA by (auto simp: hh nth_append)
  from load_rows_map[OF this]
  have "load_rows hh [length h..<length h + n] = Some (map (\<lambda>a. A ! (a - length h)) [length h..<length h + n])" .
  moreover have "map (\<lambda>a. A ! (a - length h)) [length h..<length h + n] = A"
    using lenA by (intro nth_equalityI) simp_all
  moreover have "length h + n < length hh" using lenA by (simp add: hh)
  ultimately show "load_grid hh (length h + n) = Some A"
    using ans by (simp add: load_grid_def)
qed

text \<open>
  C10. \<open>solve_sudoku\<close> run on a store in which \<open>g\<close> refers to the grid \<open>grd\<close>. When the
  clause set cannot be built, or the solver reports no model, the store is returned as it
  was, and in the latter case the result is the reference \<open>g\<close> itself. When the solver
  gives a model, every object that existed before the call is unchanged, \<open>g\<close> still refers
  to \<open>grd\<close>, and the result is a new outer list of new rows holding the decoded matrix.
\<close>

theorem solve_sudoku_store_frame:
  assumes "load_grid h g = Some grd"
  shows "(\<forall>err. sudoku_cnf grd = Inl err \<longrightarrow> solve_sudoku_store solver h g = (h, Inl err)) \<and>
    (\<forall>f. sudoku_cnf grd = Inr f \<longrightarrow>
      (solver f = None \<longrightarrow> solve_sudoku_store solver h g = (h, Inr g)) \<and>
      (\<forall>model. solver f = Some model \<longrightarrow>
        (\<exists>h'. solve_sudoku_store solver h g = (h', Inr (length h + length grd)) \<and>
           take (length h) h' = h \<and> load_grid h' g = Some grd \<and>
           h' ! (length h + length grd) = RefList [length h..<length h + length grd] \<and>
           load_grid h' (length h + length grd) =
             Some (decode_model (int (length grd)) model))))"
proof (intro conjI allI impI)
  fix err assume "sudoku_cnf grd = Inl err"
  then show "solve_sudoku_store solver h g = (h, Inl err)"
    using assms by (simp add: solve_sudoku_store_def)
next
  fix f assume "sudoku_cnf grd = Inr f" "solver f = None"
  then show "solve_sudoku_store solver h g = (h, Inr g)"
    using assms by (simp add: solve_sudoku_store_def)
next
  fix f model assume f: "sudoku_cnf grd = Inr f" and m: "solver f = Some model"
  let ?n = "length grd"
  let ?A0 = "replicate ?n (replicate ?n (0::int))"
  let ?h2 = "h @ replicate ?n (IntRow (replicate ?n 0)) @ [RefList [length h..<length h + ?n]]"
  let ?h' = "fold (store_value (int ?n) (length h + ?n)) model ?h2"
  have run: "solve_sudoku_store solver h g = (?h', Inr (length h + ?n))"
    using assms f m by (simp add: solve_sudoku_store_def new_rows_def new_list_def Let_def)
  have "answer_store h ?n ?A0 ?h2" by (simp add: answer_store_def)
  from store_value_fold[OF this, of model]
  have fin: "answer_store h ?n (decode_model (int ?n) model) ?h'"
    by (simp add: decode_model_def)
  note l = answer_store_load[OF fin]
  show "\<exists>h'. solve_sudoku_store solver h g = (h', Inr (length h + length grd)) \<and>
           take (length h) h' = h \<and> load_grid h' g = Some grd \<and>
           h' ! (length h + length grd) = RefList [length h..<length h + length grd] \<and>
           load_grid h' (length h + length grd) =
             Some (decode_model (int (length grd)) model)"
    using run l load_grid_prefix[OF assms l(1)] by blast
qed


lemma one_decode: "decode_model 1 (full_model [111] 111) = [[1]]"
  by code_simp

theorem solve_sudoku_store_frame_witness:
  "load_grid empty_store 0 = Some [] \<and> sudoku_cnf [] = Inl ValueError \<and>
   solve_sudoku_store one_oracle empty_store 0 = (empty_store, Inl ValueError) \<and>
   load_grid one_store 1 = Some [[0]] \<and> sudoku_cnf [[0]] = Inr [[111], [111], [111]] \<and>
   solve_sudoku_store unsat_oracle one_store 1 = (one_store, Inr 1) \<and>
   (\<exists>h'. solve_sudoku_store one_oracle one_store 1 = (h', Inr 3) \<and>
      take 2 h' = one_store \<and> load_grid h' 1 = Some [[0]] \<and>
      h' ! 3 = RefList [2] \<and> load_grid h' 3 = Some [[1]])"
proof -
  have e: "load_grid empty_store 0 = Some []" by code_simp
  have ec: "sudoku_cnf [] = Inl ValueError" by code_simp
  have o: "load_grid one_store 1 = Some [[0]]" by code_simp
  have oc: "sudoku_cnf [[0]] = Inr [[111], [111], [111]]" by code_simp
  have u: "unsat_oracle [[111], [111], [111]] = None" by (simp add: unsat_oracle_def)
  have m: "one_oracle [[111], [111], [111]] = Some (full_model [111] 111)"
    by (simp add: one_oracle_def)
  have len: "length one_store = 2" by (simp add: one_store_def)
  from solve_sudoku_store_frame[OF e, of one_oracle] ec
  have 1: "solve_sudoku_store one_oracle empty_store 0 = (empty_store, Inl ValueError)"
    by blast
  from solve_sudoku_store_frame[OF o, of unsat_oracle] oc u
  have 2: "solve_sudoku_store unsat_oracle one_store 1 = (one_store, Inr 1)"
    by blast
  from solve_sudoku_store_frame[OF o, of one_oracle] oc m
  have "\<exists>h'. solve_sudoku_store one_oracle one_store 1 = (h', Inr (length one_store + length [[0::int]])) \<and>
      take (length one_store) h' = one_store \<and> load_grid h' 1 = Some [[0]] \<and>
      h' ! (length one_store + length [[0::int]]) =
        RefList [length one_store..<length one_store + length [[0::int]]] \<and>
      load_grid h' (length one_store + length [[0::int]]) =
        Some (decode_model (int (length [[0::int]])) (full_model [111] 111))"
    by blast
  then have 3: "\<exists>h'. solve_sudoku_store one_oracle one_store 1 = (h', Inr 3) \<and>
      take 2 h' = one_store \<and> load_grid h' 1 = Some [[0]] \<and>
      h' ! 3 = RefList [2] \<and> load_grid h' 3 = Some [[1]]"
    by (simp add: len one_decode)
  show ?thesis using e ec 1 o oc 2 3 by blast
qed

end
